theory Spec2Isabelle
  imports Main "HOL-Library.Sublist"
begin

section \<open>Zowe Chat: listener registry, message matcher, dispatcher and plugin loader\<close>

text \<open>
  The development embeds \<^verbatim>\<open>BotMessageListener\<close> (registry, \<^verbatim>\<open>matchMessage\<close>,
  \<^verbatim>\<open>processMessage\<close>) and the parts of \<^verbatim>\<open>ChatBot\<close> that fill the registry
  (\<^verbatim>\<open>setBotListeners\<close>, \<^verbatim>\<open>loadPlugins\<close>, the constructor).

  JavaScript objects that the code shares by reference live in two stores, addressed by
  their index: chat contexts (\<^verbatim>\<open>IChatContextData\<close>) and plugin descriptors
  (\<^verbatim>\<open>IChatPlugin\<close>). A method takes the state and returns the new one. The state
  carries a trace of what the code does to its collaborators: the error-level log calls,
  the calls of listener methods and the calls of the transport's \<^verbatim>\<open>send\<close>. Log
  calls below error level only print and are left out. An exception is a value of
  type \<open>error\<close>.

  A context is held by value in its store. Whether the clones of a match pass share an
  object with one another or with the inbound context is a question about every object
  a context refers to; for it \<^verbatim>\<open>matchMessage\<close> is embedded once more, over a store
  that holds each object at an address of its own.
\<close>

subsection \<open>Data model\<close>

type_synonym ref = nat

datatype error = Error string | TypeError string

datatype 'a completion = Return 'a | Throw error

datatype json = JNull | JBool bool | JNum int | JStr string
  | JArr "json list" | JObj "(string \<times> json) list"

text \<open>
  Modelled from the spec: the enumerations, whose declarations (the \<^verbatim>\<open>types\<close> modules)
  are not among the sources. A listener is of kind message or event; a payload is a
  plain message or not; an outbound message is plain text or of another type.
\<close>

datatype IChatListenerType = MESSAGE_LISTENER | EVENT_LISTENER

datatype IPayloadType = MESSAGE | EVENT

datatype IMessageType = PLAIN_TEXT | OTHER_MESSAGE_TYPE string

text \<open>A plugin descriptor, one item of \<^verbatim>\<open>plugin.yaml\<close>.\<close>

record IChatPlugin =
  listeners :: "string list"
  package :: string
  registry :: string
  version :: int
  priority :: int

text \<open>
  A listener object is known by a handle; what its methods do is given by the
  environment. The built-in \<^verbatim>\<open>LogoutMessageListener\<close> has a handle of its own.
\<close>

datatype listenerInstance = LogoutMessageListener | PluginListener nat

record IChatListenerRegistryEntry =
  listenerName :: string
  listenerType :: IChatListenerType
  listenerInstance :: listenerInstance
  chatPlugin :: ref

record IPayload =
  type' :: IPayloadType
  data :: string

record IUser =
  name :: string

text \<open>
  \<^verbatim>\<open>extraData\<close> is a property bag. The three properties the code writes are fields;
  every other property is plain data held by value. \<^verbatim>\<open>chatPlugin\<close> and
  \<^verbatim>\<open>contexts\<close> hold references.
\<close>

record extraData =
  extra_chatPlugin :: "ref option"
  extra_listeners :: "IChatListenerRegistryEntry list option"
  extra_contexts :: "ref list option"
  extra_other :: "(string \<times> json) list"

text \<open>
  \<^verbatim>\<open>context.chatting.user\<close> is the field \<open>user\<close>; \<^verbatim>\<open>context.chatting.bot\<close> is the
  transport, part of the environment. \<open>extraData = None\<close> stands for
  \<^verbatim>\<open>undefined\<close> and \<^verbatim>\<open>null\<close>, which the code treats alike.
\<close>

record IChatContextData =
  payload :: IPayload
  user :: IUser
  extraData :: "extraData option"

record IMessage =
  message :: string
  messageType :: IMessageType

datatype logged = Msg string | Exn error

datatype event =
    LogError logged
  | CallMatch IChatListenerRegistryEntry ref
  | CallProcess IChatListenerRegistryEntry "ref option"
  | CallChallenge IUser
  | CallSend "ref option" "IMessage list"

text \<open>
  The state: the registry of \<^verbatim>\<open>BotMessageListener\<close>, the registry of
  \<^verbatim>\<open>BotEventListener\<close>, \<^verbatim>\<open>ChatBot.plugins\<close>, the two object stores and the trace.
\<close>

record state =
  chatListeners :: "IChatListenerRegistryEntry list"
  eventListeners :: "IChatListenerRegistryEntry list"
  plugins :: "ref list"
  heap :: "IChatContextData list"
  pluginHeap :: "IChatPlugin list"
  trace :: "event list"

text \<open>
  The configuration read by the code, and the collaborators it calls: the security
  manager, the messaging app, the transport's \<^verbatim>\<open>send\<close>, the listeners' methods, the
  file system, the YAML parser, \<^verbatim>\<open>Util.getPackageName\<close>, \<^verbatim>\<open>require\<close> with the
  constructors of the module it loads, and the printed form of a payload type. A call
  returns a value or throws. A listener method is a function of the context it is handed
  (with the plugin store, which the context refers to); \<open>None\<close> as a context is
  \<^verbatim>\<open>undefined\<close>.
\<close>

datatype IChatToolType = MATTERMOST | MSTEAMS | SLACK

record config =
  chatToolType :: IChatToolType
  mattermostBotUserName :: string
  msteamsBotUserName :: string
  slackBotUserName :: string
  pluginLimit :: int
  pluginHome :: string
  dirname :: string
  sep :: string

record env =
  isAuthenticated :: "IChatContextData \<Rightarrow> bool"
  generateChallenge :: "IUser \<Rightarrow> string"
  getPrincipal :: "IChatContextData \<Rightarrow> error + unit"
  send :: "IChatContextData option \<Rightarrow> IMessage list \<Rightarrow> error + unit"
  listenerMatch :: "listenerInstance \<Rightarrow> IChatPlugin list \<Rightarrow> IChatContextData \<Rightarrow> error + bool"
  listenerProcess :: "listenerInstance \<Rightarrow> IChatPlugin list \<Rightarrow> IChatContextData option
    \<Rightarrow> error + IMessage list"
  existsSync :: "string \<Rightarrow> bool"
  readYaml :: "string \<Rightarrow> error + IChatPlugin list"
  getPackageName :: "string \<Rightarrow> error + string"
  require :: "string \<Rightarrow> error + (string \<Rightarrow> error + nat)"
  showPayloadType :: "IPayloadType \<Rightarrow> string"

text \<open>The \<^verbatim>\<open>switch\<close> of the constructor of \<^verbatim>\<open>BotMessageListener\<close>.\<close>

definition botName :: "config \<Rightarrow> string" where
  "botName C =
     (case chatToolType C of
        MATTERMOST \<Rightarrow> mattermostBotUserName C
      | MSTEAMS \<Rightarrow> msteamsBotUserName C
      | SLACK \<Rightarrow> slackBotUserName C)"

definition logError :: "logged \<Rightarrow> state \<Rightarrow> state" where
  "logError m s = s\<lparr>trace := trace s @ [LogError m]\<rparr>"

definition emit :: "event \<Rightarrow> state \<Rightarrow> state" where
  "emit e s = s\<lparr>trace := trace s @ [e]\<rparr>"

subsection \<open>The registry\<close>

definition registerChatListener :: "IChatListenerRegistryEntry \<Rightarrow> state \<Rightarrow> state" where
  "registerChatListener listenerEntry s = s\<lparr>chatListeners := chatListeners s @ [listenerEntry]\<rparr>"

definition getChatListener :: "state \<Rightarrow> IChatListenerRegistryEntry list" where
  "getChatListener s = chatListeners s"

subsection \<open>matchMessage\<close>

text \<open>\<^verbatim>\<open>String.prototype.indexOf\<close>: the first position of the pattern, or -1.\<close>

fun indexOfFrom :: "string \<Rightarrow> string \<Rightarrow> nat \<Rightarrow> int" where
  "indexOfFrom [] pat i = (if pat = [] then int i else - 1)"
| "indexOfFrom (c # cs) pat i =
     (if prefix pat (c # cs) then int i else indexOfFrom cs pat (Suc i))"

definition indexOf :: "string \<Rightarrow> string \<Rightarrow> int" where
  "indexOf s pat = indexOfFrom s pat 0"

text \<open>
  \<^verbatim>\<open>_.cloneDeep\<close> (lodash, a library): a new object holding a copy of the context.
  The new object gets the next free address. Plain data is held by value, so the copy of
  it shares nothing with the original. A reference in \<^verbatim>\<open>extraData\<close> is copied as it
  is, where lodash would also copy the object referred to: \<^verbatim>\<open>chatPlugin\<close> is
  overwritten right after the clone is made, and \<^verbatim>\<open>listeners\<close> and \<^verbatim>\<open>contexts\<close>
  are only present on a context that has been through a match pass before, which the
  transport, handing every message a new context, does not produce. What a clone
  shares with the inbound context and with the other clones is settled over the store of
  objects, where \<^verbatim>\<open>cloneDeep\<close> is the traversal that lodash makes.
\<close>

definition cloneDeep :: "state \<Rightarrow> ref \<Rightarrow> state \<times> ref" where
  "cloneDeep s a = (s\<lparr>heap := heap s @ [heap s ! a]\<rparr>, length (heap s))"

definition emptyExtraData :: extraData where
  "emptyExtraData = \<lparr>extra_chatPlugin = None, extra_listeners = None,
     extra_contexts = None, extra_other = []\<rparr>"

text \<open>Lines 93 to 99: stamp the listener's plugin on the clone.\<close>

definition setChatPlugin :: "ref \<Rightarrow> IChatContextData \<Rightarrow> IChatContextData" where
  "setChatPlugin p c =
     (case extraData c of
        None \<Rightarrow> c\<lparr>extraData := Some (emptyExtraData\<lparr>extra_chatPlugin := Some p\<rparr>)\<rparr>
      | Some x \<Rightarrow> c\<lparr>extraData := Some (x\<lparr>extra_chatPlugin := Some p\<rparr>)\<rparr>)"

text \<open>Lines 110 to 118: record the listener and context pool on the inbound context.\<close>

definition setPools :: "IChatListenerRegistryEntry list \<Rightarrow> ref list \<Rightarrow> IChatContextData
    \<Rightarrow> IChatContextData" where
  "setPools ls cs c =
     (case extraData c of
        None \<Rightarrow> c\<lparr>extraData := Some (emptyExtraData\<lparr>extra_listeners := Some ls,
                   extra_contexts := Some cs\<rparr>)\<rparr>
      | Some x \<Rightarrow> c\<lparr>extraData := Some (x\<lparr>extra_listeners := Some ls,
                   extra_contexts := Some cs\<rparr>)\<rparr>)"

definition updateContext :: "ref \<Rightarrow> (IChatContextData \<Rightarrow> IChatContextData) \<Rightarrow> state \<Rightarrow> state" where
  "updateContext a f s = s\<lparr>heap := (heap s)[a := f (heap s ! a)]\<rparr>"

text \<open>
  The loop of lines 91 to 104 over the registry, with the two pools as accumulators.
  An exception of a listener's \<^verbatim>\<open>matchMessage\<close> leaves the loop with the state
  reached so far.
\<close>

fun matchLoop :: "env \<Rightarrow> ref \<Rightarrow> IChatListenerRegistryEntry list
    \<Rightarrow> state \<Rightarrow> IChatListenerRegistryEntry list \<Rightarrow> ref list
    \<Rightarrow> (error \<times> state) + (state \<times> IChatListenerRegistryEntry list \<times> ref list)" where
  "matchLoop E chatContextData [] s ls cs = Inr (s, ls, cs)"
| "matchLoop E chatContextData (listener # rest) s ls cs =
     (let (s1, contextData) = cloneDeep s chatContextData;
          s2 = updateContext contextData (setChatPlugin (chatPlugin listener)) s1;
          s3 = emit (CallMatch listener contextData) s2
      in case listenerMatch E (listenerInstance listener) (pluginHeap s3) (heap s3 ! contextData) of
           Inl e \<Rightarrow> Inl (e, s3)
         | Inr b \<Rightarrow>
             if b then matchLoop E chatContextData rest s3 (ls @ [listener]) (cs @ [contextData])
             else matchLoop E chatContextData rest s3 ls cs)"

text \<open>
  The result is \<open>Some True\<close>, \<open>Some False\<close>, or \<open>None\<close> for \<^verbatim>\<open>undefined\<close>: after
  the \<^verbatim>\<open>catch\<close> block the method ends without a \<^verbatim>\<open>return\<close>.
\<close>

definition matchMessage :: "env \<Rightarrow> config \<Rightarrow> state \<Rightarrow> ref \<Rightarrow> state \<times> bool option" where
  "matchMessage E C s chatContextData =
     (if indexOf (data (payload (heap s ! chatContextData))) (CHR ''@'' # botName C) = - 1
      then (s, Some False)
      else
        (case (if type' (payload (heap s ! chatContextData)) = MESSAGE
               then matchLoop E chatContextData (chatListeners s) s [] []
               else Inr (logError (Msg (''Wrong payload type: ''
                      @ showPayloadType E (type' (payload (heap s ! chatContextData))))) s,
                    [], [])) of
           Inl (e, s') \<Rightarrow> (logError (Exn e) s', None)
         | Inr (s', ls, cs) \<Rightarrow>
             (updateContext chatContextData (setPools ls cs) s', Some (0 < length ls))))"

subsection \<open>processMessage\<close>

text \<open>An array read: \<open>None\<close> is \<^verbatim>\<open>undefined\<close>, what JavaScript gives out of range.\<close>

definition nthOpt :: "'a list \<Rightarrow> nat \<Rightarrow> 'a option" where
  "nthOpt xs i = (if i < length xs then Some (xs ! i) else None)"

definition deref :: "state \<Rightarrow> ref option \<Rightarrow> IChatContextData option" where
  "deref s r = map_option (\<lambda>a. heap s ! a) r"

text \<open>Lines 176 to 180.\<close>

definition effectiveLimit :: "int \<Rightarrow> nat \<Rightarrow> int" where
  "effectiveLimit limit matchCount =
     (if limit < 0 \<or> limit > int matchCount then int matchCount else limit)"

definition loginPrompt :: "IUser \<Rightarrow> string \<Rightarrow> IMessage" where
  "loginPrompt u redirect =
     \<lparr>message = ''Hello @'' @ name u
        @ '', you are not currently logged in to the backend system. Please visit ''
        @ redirect @ '' to login'',
      messageType = PLAIN_TEXT\<rparr>"

definition undefinedRead :: error where
  "undefinedRead = TypeError ''Cannot read properties of undefined''"

text \<open>
  The loop of lines 183 to 191 over the indices \<open>0 ..< pluginLimit\<close>. Reading a
  property of \<^verbatim>\<open>undefined\<close> throws; an index beyond \<^verbatim>\<open>listenerContexts\<close> reads
  \<^verbatim>\<open>undefined\<close>, which is passed on.
\<close>

fun processLoop :: "env \<Rightarrow> IChatListenerRegistryEntry list \<Rightarrow> ref list option \<Rightarrow> nat list
    \<Rightarrow> state \<Rightarrow> (error \<times> state) + state" where
  "processLoop E matchedListeners listenerContexts [] s = Inr s"
| "processLoop E matchedListeners listenerContexts (i # rest) s =
     (case nthOpt matchedListeners i of
        None \<Rightarrow> Inl (undefinedRead, s)
      | Some listener \<Rightarrow>
          (case listenerContexts of
             None \<Rightarrow> Inl (undefinedRead, s)
           | Some contexts \<Rightarrow>
               (let target = nthOpt contexts i;
                    s1 = emit (CallProcess listener target) s
                in case listenerProcess E (listenerInstance listener) (pluginHeap s1)
                          (deref s1 target) of
                     Inl e \<Rightarrow> Inl (e, s1)
                   | Inr msgs \<Rightarrow>
                       (let s2 = emit (CallSend target msgs) s1
                        in case send E (deref s2 target) msgs of
                             Inl e \<Rightarrow> Inl (e, s2)
                           | Inr _ \<Rightarrow>
                               processLoop E matchedListeners listenerContexts rest s2))))"

text \<open>
  The method is \<^verbatim>\<open>async\<close>: \<open>Throw\<close> is a rejected promise. The branch of the
  unauthenticated sender has no \<^verbatim>\<open>try\<close>.
\<close>

definition processMessage :: "env \<Rightarrow> config \<Rightarrow> state \<Rightarrow> ref \<Rightarrow> state \<times> unit completion" where
  "processMessage E C s chatContextData =
     (let ctx = heap s ! chatContextData; u = user ctx
      in if \<not> isAuthenticated E ctx then
           (let redirect = generateChallenge E u;
                s1 = emit (CallChallenge u) s
            in case extraData ctx of
                 None \<Rightarrow> (s1, Throw undefinedRead)
               | Some x \<Rightarrow>
                   (case extra_contexts x of
                      None \<Rightarrow> (s1, Throw undefinedRead)
                    | Some contexts \<Rightarrow>
                        (let target = nthOpt contexts 0;
                             s2 = emit (CallSend target [loginPrompt u redirect]) s1
                         in case send E (deref s2 target) [loginPrompt u redirect] of
                              Inl e \<Rightarrow> (s2, Throw e)
                            | Inr _ \<Rightarrow> (s2, Return ()))))
         else
           (case (case getPrincipal E ctx of
                    Inl e \<Rightarrow> Inl (e, s)
                  | Inr _ \<Rightarrow>
                      (case extraData ctx of
                         None \<Rightarrow> Inl (undefinedRead, s)
                       | Some x \<Rightarrow>
                           (case extra_listeners x of
                              None \<Rightarrow> Inl (undefinedRead, s)
                            | Some matchedListeners \<Rightarrow>
                                processLoop E matchedListeners (extra_contexts x)
                                  [0 ..< nat (effectiveLimit (pluginLimit C)
                                     (length matchedListeners))] s))) of
              Inl (e, s') \<Rightarrow> (logError (Exn e) s', Return ())
            | Inr s' \<Rightarrow> (s', Return ())))"

subsection \<open>ChatBot: built-in listener and plugin loader\<close>

text \<open>
  The class \<^verbatim>\<open>ChatBot\<close> is the second unit of the source file
  \<^verbatim>\<open>config/doc/IConfigBlockDefinition.ts\<close>; its lines are numbered as in that file.
\<close>

definition logoutPlugin :: IChatPlugin where
  "logoutPlugin = \<lparr>listeners = [''LogoutMessageListener''], package = ''chat'',
     registry = ''local'', version = 1, priority = 1\<rparr>"

definition logoutEntry :: "ref \<Rightarrow> IChatListenerRegistryEntry" where
  "logoutEntry p = \<lparr>listenerName = ''LogoutListener'', listenerType = MESSAGE_LISTENER,
     listenerInstance = LogoutMessageListener, chatPlugin = p\<rparr>"

text \<open>The object literal of the plugin descriptor is a new object of the plugin store.\<close>

definition setBotListeners :: "state \<Rightarrow> state" where
  "setBotListeners s =
     registerChatListener (logoutEntry (length (pluginHeap s)))
       (s\<lparr>pluginHeap := pluginHeap s @ [logoutPlugin]\<rparr>)"

text \<open>
  Modelled from the spec: \<^verbatim>\<open>BotEventListener.registerChatListener\<close>, whose class is not
  among the sources; the registry's \<^verbatim>\<open>register\<close> "appends unconditionally".
\<close>

definition registerEventListener :: "IChatListenerRegistryEntry \<Rightarrow> state \<Rightarrow> state" where
  "registerEventListener listenerEntry s =
     s\<lparr>eventListeners := eventListeners s @ [listenerEntry]\<rparr>"

definition readYamlFile :: "env \<Rightarrow> string \<Rightarrow> error + IChatPlugin list" where
  "readYamlFile E filePath =
     (if \<not> existsSync E filePath
      then Inl (Error (''TBD002E: File '' @ filePath @ '' does not exist.''))
      else case readYaml E filePath of
             Inl err \<Rightarrow> Inl (Error (''TBD003E: Error parsing the content for file '' @ filePath
               @ ''. Please make sure the file is valid YAML.''))
           | Inr v \<Rightarrow> Inr v)"

text \<open>\<^verbatim>\<open>String.prototype.split\<close> with a separator of one character.\<close>

fun split :: "char \<Rightarrow> string \<Rightarrow> string list" where
  "split d [] = [[]]"
| "split d (c # cs) =
     (if c = d then [] # split d cs
      else case split d cs of [] \<Rightarrow> [[c]] | w # ws \<Rightarrow> (c # w) # ws)"

text \<open>
  \<^verbatim>\<open>Array.prototype.sort\<close> with a comparator. The language requires the sort to be
  stable; for a comparator that is a difference of keys the result is then determined.
  The model is the insertion sort that puts an element before the first one it does not
  exceed.
\<close>

fun insertSorted :: "('a \<Rightarrow> 'a \<Rightarrow> int) \<Rightarrow> 'a \<Rightarrow> 'a list \<Rightarrow> 'a list" where
  "insertSorted cmp x [] = [x]"
| "insertSorted cmp x (y # ys) =
     (if cmp x y \<le> 0 then x # y # ys else y # insertSorted cmp x ys)"

fun arraySort :: "('a \<Rightarrow> 'a \<Rightarrow> int) \<Rightarrow> 'a list \<Rightarrow> 'a list" where
  "arraySort cmp [] = []"
| "arraySort cmp (x # xs) = insertSorted cmp x (arraySort cmp xs)"

text \<open>Line 264: \<^verbatim>\<open>(a, b) => a.priority - b.priority\<close>, on references into the plugin store.\<close>

definition comparePriority :: "IChatPlugin list \<Rightarrow> ref \<Rightarrow> ref \<Rightarrow> int" where
  "comparePriority ph a b = priority (ph ! a) - priority (ph ! b)"

text \<open>The double and the single quote character, for the log messages.\<close>

definition dq :: string where
  "dq = [CHR 0x22]"

definition sq :: string where
  "sq = [CHR 0x27]"

text \<open>Lines 298 to 327: create and register the listeners of one plugin.\<close>

fun registerListeners :: "env \<Rightarrow> string \<Rightarrow> ref \<Rightarrow> string list \<Rightarrow> state
    \<Rightarrow> (error \<times> state) + state" where
  "registerListeners E pluginPath plugin [] s = Inr s"
| "registerListeners E pluginPath plugin (lname # rest) s =
     (if suffix ''MessageListener'' lname then
        (case require E pluginPath of
           Inl e \<Rightarrow> Inl (e, s)
         | Inr ZoweChatPlugin \<Rightarrow>
             (case ZoweChatPlugin lname of
                Inl e \<Rightarrow> Inl (e, s)
              | Inr inst \<Rightarrow>
                  registerListeners E pluginPath plugin rest
                    (registerChatListener
                       \<lparr>listenerName = lname, listenerType = MESSAGE_LISTENER,
                        listenerInstance = PluginListener inst, chatPlugin = plugin\<rparr> s)))
      else if suffix ''EventListener'' lname then
        (case require E pluginPath of
           Inl e \<Rightarrow> Inl (e, s)
         | Inr ZoweChatPlugin \<Rightarrow>
             (case ZoweChatPlugin lname of
                Inl e \<Rightarrow> Inl (e, s)
              | Inr inst \<Rightarrow>
                  registerListeners E pluginPath plugin rest
                    (registerEventListener
                       \<lparr>listenerName = lname, listenerType = EVENT_LISTENER,
                        listenerInstance = PluginListener inst, chatPlugin = plugin\<rparr> s)))
      else
        registerListeners E pluginPath plugin rest
          (logError (Msg (''The listener '' @ dq @ lname @ dq @ '' is not supported!'')) s))"

definition pluginPathOf :: "config \<Rightarrow> IChatPlugin \<Rightarrow> string" where
  "pluginPathOf C plugin =
     (let segments = split CHR ''/'' (package plugin)
      in if length segments = 2
         then pluginHome C @ sep C @ segments ! 0 @ sep C @ segments ! 1
         else pluginHome C @ sep C @ package plugin)"

text \<open>Lines 268 to 331: the loop over the sorted plugin list.\<close>

fun loadLoop :: "env \<Rightarrow> config \<Rightarrow> string \<Rightarrow> ref list \<Rightarrow> state \<Rightarrow> (error \<times> state) + state" where
  "loadLoop E C pluginYamlFilePath [] s = Inr s"
| "loadLoop E C pluginYamlFilePath (plugin # rest) s =
     (let pluginPath = pluginPathOf C (pluginHeap s ! plugin)
      in if \<not> existsSync E pluginPath then
           loadLoop E C pluginYamlFilePath rest
             (logError (Msg (''Can'' @ sq @ ''t load the plugin '' @ package (pluginHeap s ! plugin)
                @ '' due to the plugin file path '' @ dq @ pluginPath @ dq @ '' does not exist!'')) s)
         else
           (case getPackageName E (pluginPath @ sep C @ ''package.json'') of
              Inl e \<Rightarrow> Inl (e, s)
            | Inr packageName \<Rightarrow>
                if package (pluginHeap s ! plugin) \<noteq> packageName then
                  loadLoop E C pluginYamlFilePath rest
                    (logError (Msg (''Can'' @ sq @ ''t load the plugin '' @ package (pluginHeap s ! plugin)
                       @ '' due to the specified package name in '' @ pluginYamlFilePath
                       @ '' is not consistent with the real package name in ''
                       @ pluginPath @ sep C @ ''package.json'')) s)
                else
                  (case registerListeners E pluginPath plugin
                          (listeners (pluginHeap s ! plugin)) s of
                     Inl es \<Rightarrow> Inl es
                   | Inr s' \<Rightarrow>
                       loadLoop E C pluginYamlFilePath rest
                         (s'\<lparr>plugins := plugins s' @ [plugin]\<rparr>))))"

text \<open>The parsed descriptors are new objects of the plugin store, in manifest order.\<close>

definition allocPlugins :: "IChatPlugin list \<Rightarrow> state \<Rightarrow> state \<times> ref list" where
  "allocPlugins ps s =
     (s\<lparr>pluginHeap := pluginHeap s @ ps\<rparr>,
      [length (pluginHeap s) ..< length (pluginHeap s) + length ps])"

text \<open>Lines 259 to 331, inside the \<^verbatim>\<open>try\<close>, once the manifest's path is known.\<close>

definition loadFrom :: "env \<Rightarrow> config \<Rightarrow> string \<Rightarrow> state \<Rightarrow> (error \<times> state) + state" where
  "loadFrom E C pluginYamlFilePath s =
     (case readYamlFile E pluginYamlFilePath of
        Inl e \<Rightarrow> Inl (e, s)
      | Inr parsed \<Rightarrow>
          (let (s1, pluginList) = allocPlugins parsed s
           in loadLoop E C pluginYamlFilePath
                (arraySort (comparePriority (pluginHeap s1)) pluginList) s1))"

definition homeManifest :: "config \<Rightarrow> string" where
  "homeManifest C = pluginHome C @ sep C @ ''plugin.yaml''"

definition builtinManifest :: "config \<Rightarrow> string" where
  "builtinManifest C = dirname C @ sep C @ ''..'' @ sep C @ ''config'' @ sep C @ ''plugin.yaml''"

definition loadPlugins :: "env \<Rightarrow> config \<Rightarrow> state \<Rightarrow> state \<times> unit completion" where
  "loadPlugins E C s =
     (if \<not> existsSync E (homeManifest C) \<and> \<not> existsSync E (builtinManifest C) then
        (logError (Msg ''Skip loading plugins!'')
           (logError (Msg (''Zowe Chat plugin configuration file plugin.yaml does not exist in ''
              @ pluginHome C @ '' and '' @ dirname C @ sep C @ ''..'' @ sep C @ ''config !'')) s),
         Return ())
      else
        (case loadFrom E C
                (if existsSync E (homeManifest C) then homeManifest C else builtinManifest C) s of
           Inl (e, s') \<Rightarrow> (logError (Exn e) s', Return ())
         | Inr s' \<Rightarrow> (s', Return ())))"

text \<open>
  The constructor of \<^verbatim>\<open>ChatBot\<close> from line 156 on: a new \<^verbatim>\<open>BotMessageListener\<close>
  with an empty registry, then lines 163 to 165. The collaborators built before are
  the environment.
\<close>

definition initialState :: state where
  "initialState = \<lparr>chatListeners = [], eventListeners = [], plugins = [], heap = [],
     pluginHeap = [], trace = []\<rparr>"

definition newChatBot :: "env \<Rightarrow> config \<Rightarrow> state \<times> unit completion" where
  "newChatBot E C = loadPlugins E C ((setBotListeners initialState)\<lparr>plugins := []\<rparr>)"

subsection \<open>matchMessage over a store of objects\<close>

text \<open>
  The model above holds a context by value and keeps apart, by address, only the
  contexts and the plugin descriptors. That is enough for what \<^verbatim>\<open>matchMessage\<close> and
  \<^verbatim>\<open>processMessage\<close> compute, but it cannot say whether two contexts share a nested
  object. For that question the method is embedded a second time, over a store in which
  every object (a context, its payload, its \<^verbatim>\<open>extraData\<close>, a registry entry, a plugin
  descriptor, an array) lives at an address and a property holds either a primitive value
  or a reference.
\<close>

datatype val = VUndefined | VNull | VBool bool | VNum int | VStr string | VRef ref

text \<open>
  What \<^verbatim>\<open>_.cloneDeep\<close> does with an object depends on what it is. It copies a plain
  object or a class instance, one own enumerable property after the other (\<open>PlainK\<close>; a \<^verbatim>\<open>Map\<close>, a \<^verbatim>\<open>Set\<close>, a
  \<^verbatim>\<open>Date\<close> and the like are copied too and count as such), it copies an array element by
  element (\<open>ArrayK\<close>), and it returns a function, an \<^verbatim>\<open>Error\<close>, a \<^verbatim>\<open>WeakMap\<close> and
  every other object it has no copy for as it is (\<open>SharedK\<close>). The elements of an array
  are its slots with the empty key, in order. Prototypes are not modelled.
\<close>

datatype kind = PlainK | ArrayK | SharedK

datatype obj = Obj (kindOf: kind) (slots: "(string \<times> val) list")

type_synonym store = "obj list"

text \<open>Reading a property: \<^verbatim>\<open>undefined\<close> when the object has none of that name.\<close>

definition getProp :: "store \<Rightarrow> ref \<Rightarrow> string \<Rightarrow> val" where
  "getProp h a k = (case map_of (slots (h ! a)) k of Some v \<Rightarrow> v | None \<Rightarrow> VUndefined)"

fun assign :: "string \<Rightarrow> val \<Rightarrow> (string \<times> val) list \<Rightarrow> (string \<times> val) list" where
  "assign k v [] = [(k, v)]"
| "assign k v ((k', v') # ps) = (if k' = k then (k, v) # ps else (k', v') # assign k v ps)"

text \<open>Writing a property of the object at an address, and \<^verbatim>\<open>Array.prototype.push\<close>.\<close>

definition setProp :: "ref \<Rightarrow> string \<Rightarrow> val \<Rightarrow> store \<Rightarrow> store" where
  "setProp a k v h = h[a := Obj (kindOf (h ! a)) (assign k v (slots (h ! a)))]"

definition push :: "ref \<Rightarrow> val \<Rightarrow> store \<Rightarrow> store" where
  "push a v h = h[a := Obj (kindOf (h ! a)) (slots (h ! a) @ [('''', v)])]"











subsection \<open>Notions used to state the properties\<close>

text \<open>
  What a listener is handed in a match pass over the context \<open>c\<close> of state \<open>s\<close>: a
  clone of \<open>c\<close> stamped with the listener's plugin; and what the listener answers.
\<close>

definition stampedClone :: "state \<Rightarrow> ref \<Rightarrow> IChatListenerRegistryEntry \<Rightarrow> IChatContextData" where
  "stampedClone s c l = setChatPlugin (chatPlugin l) (heap s ! c)"

definition reportsMatch :: "env \<Rightarrow> state \<Rightarrow> ref \<Rightarrow> IChatListenerRegistryEntry \<Rightarrow> error + bool" where
  "reportsMatch E s c l = listenerMatch E (listenerInstance l) (pluginHeap s) (stampedClone s c l)"

text \<open>
  The clones of a pass over the list \<open>ls\<close> get the addresses from the end of the
  context store on, one per listener; \<open>afterMatchLoop\<close> is the state once the loop has
  walked \<open>ls\<close> without an exception.
\<close>

definition cloneRefs :: "state \<Rightarrow> IChatListenerRegistryEntry list \<Rightarrow> (IChatListenerRegistryEntry \<times> ref) list" where
  "cloneRefs s ls = zip ls [length (heap s) ..< length (heap s) + length ls]"

definition afterMatchLoop :: "state \<Rightarrow> ref \<Rightarrow> IChatListenerRegistryEntry list \<Rightarrow> state" where
  "afterMatchLoop s c ls =
     s\<lparr>heap := heap s @ map (stampedClone s c) ls,
       trace := trace s @ map (\<lambda>(l, a). CallMatch l a) (cloneRefs s ls)\<rparr>"

text \<open>
  The entries of \<open>ls\<close> that accept their clone, in the order of \<open>ls\<close>, and the
  addresses of their clones.
\<close>

definition matched :: "env \<Rightarrow> state \<Rightarrow> ref \<Rightarrow> IChatListenerRegistryEntry list \<Rightarrow> IChatListenerRegistryEntry list" where
  "matched E s c ls = filter (\<lambda>l. reportsMatch E s c l = Inr True) ls"

definition matchedRefs :: "env \<Rightarrow> state \<Rightarrow> ref \<Rightarrow> IChatListenerRegistryEntry list \<Rightarrow> ref list" where
  "matchedRefs E s c ls = map snd (filter (\<lambda>(l, a). reportsMatch E s c l = Inr True) (cloneRefs s ls))"

text \<open>
  The text of the context mentions the bot: the test of line 86.
\<close>

definition addressed :: "config \<Rightarrow> IChatContextData \<Rightarrow> bool" where
  "addressed C ctx \<longleftrightarrow> indexOf (data (payload ctx)) (CHR ''@'' # botName C) \<noteq> - 1"

text \<open>
  In a dispatch pass over the pools \<open>ls\<close> and \<open>cs\<close>: what the listener at index \<open>i\<close>
  answers, whether the transport delivers the answer, and the two calls the dispatcher
  makes for that index.
\<close>

definition dispatched :: "IChatListenerRegistryEntry list \<Rightarrow> ref list \<Rightarrow> (nat \<Rightarrow> IMessage list)
    \<Rightarrow> nat \<Rightarrow> event list" where
  "dispatched ls cs msgs i =
     [CallProcess (ls ! i) (nthOpt cs i), CallSend (nthOpt cs i) (msgs i)]"

definition answers :: "env \<Rightarrow> state \<Rightarrow> IChatListenerRegistryEntry list \<Rightarrow> ref list \<Rightarrow> nat
    \<Rightarrow> error + IMessage list" where
  "answers E s ls cs i =
     listenerProcess E (listenerInstance (ls ! i)) (pluginHeap s) (deref s (nthOpt cs i))"

definition delivers :: "env \<Rightarrow> state \<Rightarrow> ref list \<Rightarrow> nat \<Rightarrow> IMessage list \<Rightarrow> error + unit" where
  "delivers E s cs i msgs = send E (deref s (nthOpt cs i)) msgs"

text \<open>
  The calls of a listener's \<open>processMessage\<close>, and those of \<open>send\<close>, in a trace.
\<close>

definition isCallProcess :: "event \<Rightarrow> bool" where
  "isCallProcess e = (case e of CallProcess l t \<Rightarrow> True | _ \<Rightarrow> False)"

definition isCallSend :: "event \<Rightarrow> bool" where
  "isCallSend e = (case e of CallSend t m \<Rightarrow> True | _ \<Rightarrow> False)"

text \<open>
  Load order on the descriptors of a plugin store: by priority, then by address. The
  descriptors of one manifest are stored in manifest order.
\<close>

definition loadsBefore :: "IChatPlugin list \<Rightarrow> ref \<Rightarrow> ref \<Rightarrow> bool" where
  "loadsBefore ph a b \<longleftrightarrow>
     priority (ph ! a) < priority (ph ! b) \<or> (priority (ph ! a) = priority (ph ! b) \<and> a \<le> b)"

text \<open>
  The state a loop ends in, whether it ends normally or by an exception; the entries a
  pass has added to the registry; the manifest file the loader reads.
\<close>

definition outcome :: "(error \<times> state) + state \<Rightarrow> state" where
  "outcome r = (case r of Inl (e, s) \<Rightarrow> s | Inr s \<Rightarrow> s)"


definition chosenManifest :: "env \<Rightarrow> config \<Rightarrow> string" where
  "chosenManifest E C = (if existsSync E (homeManifest C) then homeManifest C else builtinManifest C)"

definition matchOutcome :: "(error \<times> state) + (state \<times> IChatListenerRegistryEntry list \<times> ref list)
    \<Rightarrow> state" where
  "matchOutcome r = (case r of Inl (e, s) \<Rightarrow> s | Inr (s, ls, cs) \<Rightarrow> s)"

text \<open>
  A step that leaves the registries and the plugin store alone, and one that only adds
  to the trace.
\<close>

definition sameRegistry :: "state \<Rightarrow> state \<Rightarrow> bool" where
  "sameRegistry s s' \<longleftrightarrow>
     chatListeners s' = chatListeners s \<and> eventListeners s' = eventListeners s
     \<and> plugins s' = plugins s \<and> pluginHeap s' = pluginHeap s"

definition onlyTrace :: "state \<Rightarrow> state \<Rightarrow> bool" where
  "onlyTrace s s' \<longleftrightarrow>
     sameRegistry s s' \<and> heap s' = heap s \<and> prefix (trace s) (trace s')"

text \<open>
  The events of a step, and the listeners whose \<open>matchMessage\<close> is called in a trace, in
  call order.
\<close>

definition newEvents :: "state \<Rightarrow> state \<Rightarrow> event list" where
  "newEvents s s' = drop (length (trace s)) (trace s')"

fun consulted :: "event list \<Rightarrow> IChatListenerRegistryEntry list" where
  "consulted [] = []"
| "consulted (CallMatch l a # es) = l # consulted es"
| "consulted (e # es) = consulted es"

text \<open>
  The transport creates the context of an inbound message as a new object.
\<close>

definition deliver :: "IChatContextData \<Rightarrow> state \<Rightarrow> state" where
  "deliver ctx s = s\<lparr>heap := heap s @ [ctx]\<rparr>"

text \<open>
  The calls a running bot receives: the transport creates a context for an inbound
  message, calls the matcher and the handler on a context, and any code holding the
  listener object may register. \<open>serving\<close> is the state after the constructor and a
  sequence of such calls.
\<close>

datatype call =
    Inbound IChatContextData
  | MatchMessage env ref
  | ProcessMessage env ref
  | RegisterChatListener IChatListenerRegistryEntry

fun run :: "config \<Rightarrow> state \<Rightarrow> call list \<Rightarrow> state" where
  "run C s [] = s"
| "run C s (Inbound ctx # calls) = run C (deliver ctx s) calls"
| "run C s (MatchMessage E c # calls) = run C (fst (matchMessage E C s c)) calls"
| "run C s (ProcessMessage E c # calls) = run C (fst (processMessage E C s c)) calls"
| "run C s (RegisterChatListener l # calls) = run C (registerChatListener l s) calls"

definition serving :: "env \<Rightarrow> config \<Rightarrow> call list \<Rightarrow> state" where
  "serving E C calls = run C (fst (newChatBot E C)) calls"

text \<open>
  A concrete installation, used to run the model: a Slack bot named \<open>zowe\<close> with a
  plugin limit of 2, and a manifest of four plugins with priorities 3, 1, 4, 1 whose
  listeners accept every message. The sender \<open>alice\<close> is logged in, nobody else is.
\<close>

definition demoConfig :: config where
  "demoConfig = \<lparr>chatToolType = SLACK, mattermostBotUserName = ''mm'',
     msteamsBotUserName = ''teams'', slackBotUserName = ''zowe'', pluginLimit = 2,
     pluginHome = ''/plugins'', dirname = ''/app/bot'', sep = ''/''\<rparr>"

definition demoManifest :: "IChatPlugin list" where
  "demoManifest =
     [\<lparr>listeners = [''GammaMessageListener''], package = ''gamma'', registry = ''local'',
        version = 1, priority = 3\<rparr>,
      \<lparr>listeners = [''AlphaMessageListener'', ''AlphaTwoMessageListener''], package = ''alpha'',
        registry = ''local'', version = 1, priority = 1\<rparr>,
      \<lparr>listeners = [''DeltaMessageListener''], package = ''delta'', registry = ''local'',
        version = 1, priority = 4\<rparr>,
      \<lparr>listeners = [''BetaMessageListener''], package = ''beta'', registry = ''local'',
        version = 1, priority = 1\<rparr>]"

definition demoModule :: "string \<Rightarrow> error + nat" where
  "demoModule cls =
     (case map_of [(''GammaMessageListener'', 3), (''AlphaMessageListener'', 1),
                   (''AlphaTwoMessageListener'', 2), (''DeltaMessageListener'', 4),
                   (''BetaMessageListener'', 5)] cls of
        None \<Rightarrow> Inl (TypeError ''not a constructor'')
      | Some n \<Rightarrow> Inr n)"

definition demoReply :: IMessage where
  "demoReply = \<lparr>message = ''done'', messageType = PLAIN_TEXT\<rparr>"

definition demoEnv :: env where
  "demoEnv =
     \<lparr>isAuthenticated = (\<lambda>ctx. name (user ctx) = ''alice''),
      generateChallenge = (\<lambda>u. ''https://chat/login/'' @ name u),
      getPrincipal = (\<lambda>ctx. Inr ()),
      send = (\<lambda>target msgs. Inr ()),
      listenerMatch = (\<lambda>inst ph ctx.
        case inst of LogoutMessageListener \<Rightarrow> Inr False | PluginListener n \<Rightarrow> Inr True),
      listenerProcess = (\<lambda>inst ph ctx. Inr [demoReply]),
      existsSync = (\<lambda>path. True),
      readYaml = (\<lambda>path. Inr demoManifest),
      getPackageName = (\<lambda>path. case map_of [(''/plugins/gamma/package.json'', ''gamma''),
          (''/plugins/alpha/package.json'', ''alpha''), (''/plugins/delta/package.json'', ''delta''),
          (''/plugins/beta/package.json'', ''beta'')] path of
            None \<Rightarrow> Inl (Error ''ENOENT'') | Some n \<Rightarrow> Inr n),
      require = (\<lambda>path. Inr demoModule),
      showPayloadType = (\<lambda>t. case t of MESSAGE \<Rightarrow> ''message'' | EVENT \<Rightarrow> ''event'')\<rparr>"

text \<open>
  Variants of the installation: a listener that throws in \<open>matchMessage\<close>, one that throws
  in \<open>processMessage\<close>, and a file system without any manifest.
\<close>

definition raisingEnv :: env where
  "raisingEnv = demoEnv\<lparr>listenerMatch := (\<lambda>inst ph ctx.
     if inst = PluginListener 5 then Inl (Error ''boom'') else Inr True)\<rparr>"

definition failingEnv :: env where
  "failingEnv = demoEnv\<lparr>listenerProcess := (\<lambda>inst ph ctx.
     if inst = PluginListener 2 then Inl (Error ''fail'') else Inr [demoReply])\<rparr>"

definition noManifestEnv :: env where
  "noManifestEnv = demoEnv\<lparr>existsSync := (\<lambda>path. False)\<rparr>"

text \<open>
  An inbound message, the state when it arrives at the started bot, and the state after
  its match pass.
\<close>

definition inboundMessage :: "string \<Rightarrow> string \<Rightarrow> IChatContextData" where
  "inboundMessage who text = \<lparr>payload = \<lparr>type' = MESSAGE, data = text\<rparr>, user = \<lparr>name = who\<rparr>,
     extraData = None\<rparr>"

text \<open>The state this installation starts serving in.\<close>

definition demoEntries :: "IChatListenerRegistryEntry list" where
  "demoEntries =
     [logoutEntry 0,
      \<lparr>listenerName = ''AlphaMessageListener'', listenerType = MESSAGE_LISTENER,
        listenerInstance = PluginListener 1, chatPlugin = 2\<rparr>,
      \<lparr>listenerName = ''AlphaTwoMessageListener'', listenerType = MESSAGE_LISTENER,
        listenerInstance = PluginListener 2, chatPlugin = 2\<rparr>,
      \<lparr>listenerName = ''BetaMessageListener'', listenerType = MESSAGE_LISTENER,
        listenerInstance = PluginListener 5, chatPlugin = 4\<rparr>,
      \<lparr>listenerName = ''GammaMessageListener'', listenerType = MESSAGE_LISTENER,
        listenerInstance = PluginListener 3, chatPlugin = 1\<rparr>,
      \<lparr>listenerName = ''DeltaMessageListener'', listenerType = MESSAGE_LISTENER,
        listenerInstance = PluginListener 4, chatPlugin = 3\<rparr>]"

definition bootState :: state where
  "bootState = \<lparr>chatListeners = demoEntries, eventListeners = [], plugins = [2, 4, 1, 3],
     heap = [], pluginHeap = logoutPlugin # demoManifest, trace = []\<rparr>"

definition atMessage :: "string \<Rightarrow> string \<Rightarrow> state" where
  "atMessage who text = deliver (inboundMessage who text) bootState"

definition afterMatch :: "string \<Rightarrow> string \<Rightarrow> state" where
  "afterMatch who text = fst (matchMessage demoEnv demoConfig (atMessage who text) 0)"


text \<open>
  A listener raises when its \<open>matchMessage\<close> throws on its clone. In a registry where
  one does, \<open>firstRaising\<close> is the first such listener in registration order,
  \<open>beforeRaising\<close> the listeners before it and \<open>raised\<close> the exception it throws.
\<close>

definition raises :: "env \<Rightarrow> state \<Rightarrow> ref \<Rightarrow> IChatListenerRegistryEntry \<Rightarrow> bool" where
  "raises E s c l = isl (reportsMatch E s c l)"

definition beforeRaising :: "env \<Rightarrow> state \<Rightarrow> ref \<Rightarrow> IChatListenerRegistryEntry list" where
  "beforeRaising E s c = takeWhile (\<lambda>l. \<not> raises E s c l) (chatListeners s)"

definition firstRaising :: "env \<Rightarrow> state \<Rightarrow> ref \<Rightarrow> IChatListenerRegistryEntry" where
  "firstRaising E s c = hd (dropWhile (\<lambda>l. \<not> raises E s c l) (chatListeners s))"

definition raised :: "env \<Rightarrow> state \<Rightarrow> ref \<Rightarrow> error" where
  "raised E s c = projl (reportsMatch E s c (firstRaising E s c))"

text \<open>
  Notions for the store of objects. The references an object holds; a store is well
  formed when every reference in it is the address of an object of the store.
\<close>

definition refsOf :: "obj \<Rightarrow> ref set" where
  "refsOf ob = set (concat (map (\<lambda>(k, v). case v of VRef r \<Rightarrow> [r] | _ \<Rightarrow> []) (slots ob)))"


text \<open>
  The objects that the holder of a reference can get to by reading properties, and so
  can read and write: the object itself and, from any object reached that is not of kind
  \<open>SharedK\<close>, the objects it refers to. What lies behind an object that \<^verbatim>\<open>cloneDeep\<close>
  shares is counted with that object. The view of a holder is what it can read: these
  objects with their contents.
\<close>

inductive_set reach :: "store \<Rightarrow> ref \<Rightarrow> ref set" for h :: store and a :: ref where
  start: "a \<in> reach h a"
| step: "b \<in> reach h a \<Longrightarrow> kindOf (h ! b) \<noteq> SharedK \<Longrightarrow> r \<in> refsOf (h ! b) \<Longrightarrow> r \<in> reach h a"





text \<open>
  While an object is cloned (\<open>h0\<close> is the store at the start, \<open>h\<close> the store now): a
  value of the store at the start refers to one of its objects; a value of a new object
  refers to a new object or to an object of kind \<open>SharedK\<close> of the store at the start.
  The objects of the store at the start are as they were, the stack maps them to new
  objects, and no new object is of kind \<open>SharedK\<close>. The objects not yet on the stack
  bound the nesting of the calls still to come.
\<close>

definition oldVal :: "store \<Rightarrow> val \<Rightarrow> bool" where
  "oldVal h0 v = (case v of VRef r \<Rightarrow> r < length h0 | _ \<Rightarrow> True)"

definition okRef :: "store \<Rightarrow> nat \<Rightarrow> ref \<Rightarrow> bool" where
  "okRef h0 len r \<longleftrightarrow> length h0 \<le> r \<and> r < len \<or> r < length h0 \<and> kindOf (h0 ! r) = SharedK"

definition okVal :: "store \<Rightarrow> nat \<Rightarrow> val \<Rightarrow> bool" where
  "okVal h0 len v = (case v of VRef r \<Rightarrow> okRef h0 len r | _ \<Rightarrow> True)"

definition cloneInv :: "store \<Rightarrow> store \<Rightarrow> (ref \<times> ref) list \<Rightarrow> bool" where
  "cloneInv h0 h stack \<longleftrightarrow>
     length h0 \<le> length h \<and> take (length h0) h = h0
     \<and> (\<forall>(a, a') \<in> set stack. a < length h0 \<and> length h0 \<le> a' \<and> a' < length h)
     \<and> (\<forall>b. length h0 \<le> b \<and> b < length h \<longrightarrow>
           kindOf (h ! b) \<noteq> SharedK \<and> (\<forall>(k, v) \<in> set (slots (h ! b)). okVal h0 (length h) v))"

definition unstacked :: "store \<Rightarrow> (ref \<times> ref) list \<Rightarrow> ref set" where
  "unstacked h0 stack = {a. a < length h0 \<and> a \<notin> fst ` set stack}"

text \<open>
  The objects made for one listener lie at the addresses from \<open>lo\<close>, the clone, up to
  \<open>hi\<close>. They are closed when none is of kind \<open>SharedK\<close> and each of their references
  stays among them, or goes to an older object of kind \<open>SharedK\<close>, or is the
  \<^verbatim>\<open>chatPlugin\<close> assigned on the \<^verbatim>\<open>extraData\<close> of the clone.
\<close>

definition stampedIn :: "store \<Rightarrow> nat \<Rightarrow> nat \<Rightarrow> ref \<Rightarrow> bool" where
  "stampedIn h lo hi r \<longleftrightarrow>
     (\<exists>x. lo \<le> x \<and> x < hi \<and> getProp h lo ''extraData'' = VRef x
          \<and> getProp h x ''chatPlugin'' = VRef r)"

definition closedIn :: "store \<Rightarrow> nat \<Rightarrow> nat \<Rightarrow> bool" where
  "closedIn h lo hi \<longleftrightarrow>
     (\<forall>b. lo \<le> b \<and> b < hi \<longrightarrow>
        kindOf (h ! b) \<noteq> SharedK
        \<and> (\<forall>k r. (k, VRef r) \<in> set (slots (h ! b)) \<longrightarrow>
              lo \<le> r \<and> r < hi \<or> r < lo \<and> kindOf (h ! r) = SharedK \<or> stampedIn h lo hi r))"

text \<open>
  A step preserves a store when it leaves every object as it was, but for the contents
  of the objects of kind \<open>SharedK\<close>.
\<close>

definition preserved :: "store \<Rightarrow> store \<Rightarrow> bool" where
  "preserved h h' \<longleftrightarrow>
     length h \<le> length h'
     \<and> (\<forall>b < length h. kindOf (h' ! b) = kindOf (h ! b)
            \<and> (kindOf (h ! b) \<noteq> SharedK \<longrightarrow> h' ! b = h ! b))"





section \<open>Properties\<close>

subsection \<open>The match pass\<close>

lemma upt_shift: "[n ..< Suc (n + k)] = n # [Suc n ..< Suc (n + k)]"
  by (subst upt_rec) simp

lemma matchLoop_step:
  "matchLoop E c (l # ls) s aL aC =
     (case reportsMatch E s c l of
        Inl e \<Rightarrow> Inl (e, afterMatchLoop s c [l])
      | Inr b \<Rightarrow> matchLoop E c ls (afterMatchLoop s c [l])
                  (if b then aL @ [l] else aL) (if b then aC @ [length (heap s)] else aC))"
  by (simp add: cloneDeep_def updateContext_def emit_def reportsMatch_def stampedClone_def
      afterMatchLoop_def cloneRefs_def Let_def split: sum.splits)

declare matchLoop.simps(2) [simp del]

lemma cloneRefs_Nil [simp]: "cloneRefs s [] = []"
  by (simp add: cloneRefs_def)

lemma cloneRefs_single [simp]: "cloneRefs s [l] = [(l, length (heap s))]"
  by (simp add: cloneRefs_def)

lemma heap_afterMatchLoop [simp]:
  "heap (afterMatchLoop s c ls) = heap s @ map (stampedClone s c) ls"
  by (simp add: afterMatchLoop_def)

lemma pluginHeap_afterMatchLoop [simp]: "pluginHeap (afterMatchLoop s c ls) = pluginHeap s"
  by (simp add: afterMatchLoop_def)

lemma chatListeners_afterMatchLoop [simp]: "chatListeners (afterMatchLoop s c ls) = chatListeners s"
  by (simp add: afterMatchLoop_def)

lemma trace_afterMatchLoop [simp]:
  "trace (afterMatchLoop s c ls) = trace s @ map (\<lambda>(l, a). CallMatch l a) (cloneRefs s ls)"
  by (simp add: afterMatchLoop_def)

lemma others_afterMatchLoop [simp]:
  "eventListeners (afterMatchLoop s c ls) = eventListeners s"
  "plugins (afterMatchLoop s c ls) = plugins s"
  "state.more (afterMatchLoop s c ls) = state.more s"
  by (simp_all add: afterMatchLoop_def)

lemma stampedClone_after:
  "c < length (heap s) \<Longrightarrow> stampedClone (afterMatchLoop s c xs) c = stampedClone s c"
  by (simp add: stampedClone_def fun_eq_iff nth_append)

lemma reportsMatch_after:
  "c < length (heap s) \<Longrightarrow> reportsMatch E (afterMatchLoop s c xs) c = reportsMatch E s c"
  by (simp add: reportsMatch_def stampedClone_after fun_eq_iff)

lemma cloneRefs_Cons:
  "cloneRefs s (l # ls) = (l, length (heap s)) # cloneRefs (afterMatchLoop s c [l]) ls"
  unfolding cloneRefs_def by (simp del: upt_Suc add: upt_shift)

lemma afterMatchLoop_Cons:
  "c < length (heap s) \<Longrightarrow>
   afterMatchLoop (afterMatchLoop s c [l]) c ls = afterMatchLoop s c (l # ls)"
  by (rule state.equality) (simp_all add: stampedClone_after cloneRefs_Cons[of s l ls c])

lemma matchLoop_append:
  assumes "c < length (heap s)"
    and "\<forall>l \<in> set pre. \<exists>b. reportsMatch E s c l = Inr b"
  shows "matchLoop E c (pre @ rest) s aL aC =
     matchLoop E c rest (afterMatchLoop s c pre)
       (aL @ matched E s c pre) (aC @ matchedRefs E s c pre)"
  using assms
proof (induction pre arbitrary: s aL aC)
  case Nil
  then show ?case
    by (simp add: afterMatchLoop_def cloneRefs_def matched_def matchedRefs_def)
next
  case (Cons l pre)
  let ?s1 = "afterMatchLoop s c [l]"
  obtain b where b: "reportsMatch E s c l = Inr b" using Cons.prems(2) by auto
  have c1: "c < length (heap ?s1)" using Cons.prems(1) by simp
  have rm: "reportsMatch E ?s1 c = reportsMatch E s c"
    by (rule reportsMatch_after[OF Cons.prems(1)])
  have ok: "\<forall>l \<in> set pre. \<exists>b. reportsMatch E ?s1 c l = Inr b"
    using Cons.prems(2) by (simp add: rm)
  have m: "matched E ?s1 c pre = matched E s c pre"
    by (simp add: matched_def rm)
  have mr: "matchedRefs E s c (l # pre) =
      (if b then [length (heap s)] else []) @ matchedRefs E ?s1 c pre"
    by (simp add: matchedRefs_def cloneRefs_Cons[of s l pre c] rm b)
  show ?case
    unfolding append_Cons matchLoop_step b sum.case
    by (simp add: Cons.IH[OF c1 ok] afterMatchLoop_Cons[OF Cons.prems(1)] m mr)
       (simp add: matched_def b)
qed

lemma matchLoop_ok:
  assumes "c < length (heap s)"
    and "\<forall>l \<in> set ls. \<exists>b. reportsMatch E s c l = Inr b"
  shows "matchLoop E c ls s [] [] =
     Inr (afterMatchLoop s c ls, matched E s c ls, matchedRefs E s c ls)"
  using matchLoop_append[OF assms, of "[]" "[]" "[]"] by simp

lemma matchLoop_raise:
  assumes "c < length (heap s)"
    and "\<forall>l \<in> set pre. \<exists>b. reportsMatch E s c l = Inr b"
    and "reportsMatch E s c l = Inl e"
  shows "matchLoop E c (pre @ l # post) s [] [] = Inl (e, afterMatchLoop s c (pre @ [l]))"
proof -
  have c1: "c < length (heap (afterMatchLoop s c pre))" using assms(1) by simp
  have "afterMatchLoop (afterMatchLoop s c pre) c [l] = afterMatchLoop s c (pre @ [l])"
    using assms(1)
    by (intro state.equality) (simp_all add: stampedClone_after cloneRefs_def)
  then show ?thesis
    by (simp add: matchLoop_append[OF assms(1,2)] matchLoop_step
        reportsMatch_after[OF assms(1)] assms(3))
qed

lemma cloneRefs_mem:
  assumes "(l, a) \<in> set (cloneRefs s ls)"
  shows "(heap s @ map f ls) ! a = f l" and "length (heap s) \<le> a"
    and "a < length (heap s) + length ls"
proof -
  from assms obtain i where i: "i < length ls" "ls ! i = l" "a = length (heap s) + i"
    by (auto simp: cloneRefs_def in_set_zip)
  then show "(heap s @ map f ls) ! a = f l" by (simp add: nth_append)
  from i show "length (heap s) \<le> a" and "a < length (heap s) + length ls" by simp_all
qed

lemma filter_zip_fst:
  "length xs = length ys \<Longrightarrow> map fst (filter (\<lambda>(l, a). P l) (zip xs ys)) = filter P xs"
  by (induction xs ys rule: list_induct2) auto

lemma matchedRefs_bounds:
  "a \<in> set (matchedRefs E s c ls) \<Longrightarrow> length (heap s) \<le> a \<and> a < length (heap s) + length ls"
  by (auto simp: matchedRefs_def dest: cloneRefs_mem(2,3))

lemma matchedRefs_distinct: "distinct (matchedRefs E s c ls)"
proof -
  have "distinct (map snd (cloneRefs s ls))" by (simp add: cloneRefs_def)
  then show ?thesis unfolding matchedRefs_def by (rule distinct_map_filter)
qed

lemma matchedRefs_clones:
  "map (\<lambda>a. (heap s @ map f ls) ! a) (matchedRefs E s c ls) = map f (matched E s c ls)"
proof -
  let ?zs = "filter (\<lambda>(l, a). reportsMatch E s c l = Inr True) (cloneRefs s ls)"
  have "map (\<lambda>a. (heap s @ map f ls) ! a) (map snd ?zs) = map f (map fst ?zs)"
    unfolding map_map by (rule map_cong) (auto dest: cloneRefs_mem(1))
  moreover have "map fst ?zs = matched E s c ls"
    unfolding matched_def cloneRefs_def by (rule filter_zip_fst) simp
  ultimately show ?thesis by (simp add: matchedRefs_def)
qed

lemma length_matchedRefs: "length (matchedRefs E s c ls) = length (matched E s c ls)"
  using arg_cong[OF matchedRefs_clones[of s "stampedClone s c" ls E c], of length] by simp

lemma matchMessage_ok:
  assumes "c < length (heap s)" "addressed C (heap s ! c)"
    and "type' (payload (heap s ! c)) = MESSAGE"
    and "\<forall>l \<in> set (chatListeners s). \<exists>b. reportsMatch E s c l = Inr b"
  shows "matchMessage E C s c =
     (updateContext c (setPools (matched E s c (chatListeners s))
         (matchedRefs E s c (chatListeners s))) (afterMatchLoop s c (chatListeners s)),
      Some (matched E s c (chatListeners s) \<noteq> []))"
  using assms(2,3) by (simp add: matchMessage_def addressed_def matchLoop_ok[OF assms(1,4)])

lemma matchMessage_raise:
  assumes "c < length (heap s)" "addressed C (heap s ! c)"
    and "type' (payload (heap s ! c)) = MESSAGE"
    and "chatListeners s = pre @ l # post"
    and "\<forall>l \<in> set pre. \<exists>b. reportsMatch E s c l = Inr b"
    and "reportsMatch E s c l = Inl e"
  shows "matchMessage E C s c = (logError (Exn e) (afterMatchLoop s c (pre @ [l])), None)"
  using assms(2,3)
  by (simp add: matchMessage_def addressed_def assms(4) matchLoop_raise[OF assms(1,5,6)])

lemma extraData_setPools:
  "\<exists>x. extraData (setPools ls cs ctx) = Some x \<and> extra_listeners x = Some ls
     \<and> extra_contexts x = Some cs"
  by (simp add: setPools_def emptyExtraData_def split: option.splits)

subsection \<open>The dispatch pass\<close>

lemma deref_trace [simp]: "deref (s\<lparr>trace := t\<rparr>) = deref s"
  by (simp add: deref_def fun_eq_iff)

lemma answers_trace [simp]: "answers E (s\<lparr>trace := t\<rparr>) = answers E s"
  by (simp add: answers_def fun_eq_iff)

lemma delivers_trace [simp]: "delivers E (s\<lparr>trace := t\<rparr>) = delivers E s"
  by (simp add: delivers_def fun_eq_iff)

lemma processLoop_step:
  "i < length ls \<Longrightarrow>
   processLoop E ls (Some cs) (i # rest) s =
     (case answers E s ls cs i of
        Inl e \<Rightarrow> Inl (e, s\<lparr>trace := trace s @ [CallProcess (ls ! i) (nthOpt cs i)]\<rparr>)
      | Inr msgs \<Rightarrow>
          (case delivers E s cs i msgs of
             Inl e \<Rightarrow> Inl (e, s\<lparr>trace := trace s @ dispatched ls cs (\<lambda>_. msgs) i\<rparr>)
           | Inr _ \<Rightarrow> processLoop E ls (Some cs) rest
                        (s\<lparr>trace := trace s @ dispatched ls cs (\<lambda>_. msgs) i\<rparr>)))"
  by (simp add: nthOpt_def emit_def answers_def delivers_def dispatched_def deref_def Let_def
      split: sum.splits)

declare processLoop.simps(2) [simp del]

lemma processLoop_append:
  assumes "\<forall>i \<in> set pre. i < length ls \<and> answers E s ls cs i = Inr (msgs i)
             \<and> delivers E s cs i (msgs i) = Inr ()"
  shows "processLoop E ls (Some cs) (pre @ rest) s =
     processLoop E ls (Some cs) rest
       (s\<lparr>trace := trace s @ concat (map (dispatched ls cs msgs) pre)\<rparr>)"
  using assms
proof (induction pre arbitrary: s)
  case Nil
  then show ?case by simp
next
  case (Cons i pre)
  let ?s1 = "s\<lparr>trace := trace s @ dispatched ls cs msgs i\<rparr>"
  have i: "i < length ls" "answers E s ls cs i = Inr (msgs i)"
    "delivers E s cs i (msgs i) = Inr ()"
    using Cons.prems by simp_all
  have d: "dispatched ls cs (\<lambda>_. msgs i) i = dispatched ls cs msgs i"
    by (simp add: dispatched_def)
  have ok: "\<forall>j \<in> set pre. j < length ls \<and> answers E ?s1 ls cs j = Inr (msgs j)
             \<and> delivers E ?s1 cs j (msgs j) = Inr ()"
    using Cons.prems by simp
  show ?case
    unfolding append_Cons processLoop_step[OF i(1)] i(2,3) sum.case d
    by (simp add: Cons.IH[OF ok])
qed

lemma effectiveLimit_le: "nat (effectiveLimit p n) \<le> n"
  unfolding effectiveLimit_def by (cases "p < 0 \<or> p > int n") (simp_all, linarith)

lemma effectiveLimit_min:
  "nat (effectiveLimit p n) = (if p < 0 then n else min (nat p) n)"
  by (auto simp: effectiveLimit_def)

lemma processMessage_ok:
  assumes "isAuthenticated E (heap s ! c)" "getPrincipal E (heap s ! c) = Inr ()"
    and "extraData (heap s ! c) = Some x" "extra_listeners x = Some ls"
    and "extra_contexts x = Some cs"
    and "\<forall>i < nat (effectiveLimit (pluginLimit C) (length ls)).
           answers E s ls cs i = Inr (msgs i) \<and> delivers E s cs i (msgs i) = Inr ()"
  shows "processMessage E C s c =
     (s\<lparr>trace := trace s @ concat (map (dispatched ls cs msgs)
           [0 ..< nat (effectiveLimit (pluginLimit C) (length ls))])\<rparr>, Return ())"
proof -
  let ?n = "nat (effectiveLimit (pluginLimit C) (length ls))"
  have "\<forall>i \<in> set [0 ..< ?n]. i < length ls \<and> answers E s ls cs i = Inr (msgs i)
             \<and> delivers E s cs i (msgs i) = Inr ()"
    using assms(6) effectiveLimit_le[of "pluginLimit C" "length ls"] by auto
  from processLoop_append[OF this, of "[]"]
  show ?thesis
    using assms(1-5) by (simp add: processMessage_def)
qed

lemma processMessage_fail:
  assumes "isAuthenticated E (heap s ! c)" "getPrincipal E (heap s ! c) = Inr ()"
    and "extraData (heap s ! c) = Some x" "extra_listeners x = Some ls"
    and "extra_contexts x = Some cs"
    and "k < nat (effectiveLimit (pluginLimit C) (length ls))"
    and "\<forall>i < k. answers E s ls cs i = Inr (msgs i) \<and> delivers E s cs i (msgs i) = Inr ()"
    and "answers E s ls cs k = Inl e
         \<or> (answers E s ls cs k = Inr (msgs k) \<and> delivers E s cs k (msgs k) = Inl e)"
  shows "processMessage E C s c =
     (s\<lparr>trace := trace s @ concat (map (dispatched ls cs msgs) [0 ..< k])
          @ (if answers E s ls cs k = Inl e then [CallProcess (ls ! k) (nthOpt cs k)]
             else dispatched ls cs msgs k)
          @ [LogError (Exn e)]\<rparr>, Return ())"
proof -
  let ?n = "nat (effectiveLimit (pluginLimit C) (length ls))"
  have kl: "k < length ls" using assms(6) effectiveLimit_le[of "pluginLimit C" "length ls"] by simp
  have sp: "[0 ..< ?n] = [0 ..< k] @ k # [Suc k ..< ?n]"
    using assms(6) by (metis upt_conv_Cons upt_add_eq_append le_add_diff_inverse less_imp_le zero_le)
  have pre: "\<forall>i \<in> set [0 ..< k]. i < length ls \<and> answers E s ls cs i = Inr (msgs i)
             \<and> delivers E s cs i (msgs i) = Inr ()"
    using assms(7) kl by auto
  have d: "dispatched ls cs (\<lambda>_. msgs k) k = dispatched ls cs msgs k"
    by (simp add: dispatched_def)
  show ?thesis
    using assms(1-5) assms(8)
    by (auto simp: processMessage_def sp processLoop_append[OF pre] processLoop_step[OF kl]
        logError_def d)
qed

lemma processMessage_unauthenticated:
  assumes "\<not> isAuthenticated E (heap s ! c)"
    and "extraData (heap s ! c) = Some x" "extra_contexts x = Some (k # ks)"
  shows "processMessage E C s c =
     (s\<lparr>trace := trace s @ [CallChallenge (user (heap s ! c)),
          CallSend (Some k) [loginPrompt (user (heap s ! c))
             (generateChallenge E (user (heap s ! c)))]]\<rparr>,
      case send E (Some (heap s ! k)) [loginPrompt (user (heap s ! c))
             (generateChallenge E (user (heap s ! c)))] of
        Inl e \<Rightarrow> Throw e | Inr _ \<Rightarrow> Return ())"
  using assms
  by (simp add: processMessage_def Let_def emit_def nthOpt_def deref_def split: sum.splits)

subsection \<open>The plugin loader\<close>

lemma set_insertSorted [simp]: "set (insertSorted cmp x ys) = insert x (set ys)"
  by (induction ys) auto

lemma set_arraySort [simp]: "set (arraySort cmp xs) = set xs"
  by (induction xs) auto




lemma insertSorted_loadsBefore:
  assumes "sorted_wrt (loadsBefore ph) ys" "\<forall>y \<in> set ys. x \<le> y"
  shows "sorted_wrt (loadsBefore ph) (insertSorted (comparePriority ph) x ys)"
  using assms
proof (induction ys)
  case Nil
  then show ?case by simp
next
  case (Cons y ys)
  show ?case
  proof (cases "comparePriority ph x y \<le> 0")
    case True
    then have xy: "priority (ph ! x) \<le> priority (ph ! y)" by (simp add: comparePriority_def)
    have "\<forall>z \<in> set (y # ys). loadsBefore ph x z"
    proof
      fix z assume z: "z \<in> set (y # ys)"
      then have "priority (ph ! y) \<le> priority (ph ! z)"
        using Cons.prems(1) by (auto simp: loadsBefore_def)
      moreover have "x \<le> z" using Cons.prems(2) z by blast
      ultimately show "loadsBefore ph x z" using xy by (auto simp: loadsBefore_def)
    qed
    then show ?thesis using True Cons.prems(1) by simp
  next
    case False
    then have "priority (ph ! y) < priority (ph ! x)" by (simp add: comparePriority_def)
    then have "loadsBefore ph y x" by (simp add: loadsBefore_def)
    then show ?thesis using False Cons by auto
  qed
qed

lemma arraySort_loadsBefore:
  "sorted xs \<Longrightarrow> sorted_wrt (loadsBefore ph) (arraySort (comparePriority ph) xs)"
  by (induction xs) (auto intro!: insertSorted_loadsBefore)

lemma sorted_wrt_same:
  "\<forall>l \<in> set xs. f l = p \<Longrightarrow> R p p \<Longrightarrow> sorted_wrt (\<lambda>a b. R (f a) (f b)) xs"
  by (induction xs) auto

lemma loadsBefore_refl: "loadsBefore ph p p"
  by (simp add: loadsBefore_def)

lemma outcome_simps [simp]: "outcome (Inl (e, s)) = s" "outcome (Inr s) = s"
  by (simp_all add: outcome_def)

lemma registerListeners_registered:
  "\<exists>new. chatListeners (outcome (registerListeners E path p names s)) = chatListeners s @ new
     \<and> (\<forall>l \<in> set new. chatPlugin l = p)
     \<and> pluginHeap (outcome (registerListeners E path p names s)) = pluginHeap s
     \<and> heap (outcome (registerListeners E path p names s)) = heap s"
proof (induction names arbitrary: s)
  case Nil
  then show ?case by simp
next
  case (Cons n names)
  show ?case
  proof (cases "suffix ''MessageListener'' n")
    case True
    show ?thesis
    proof (cases "require E path")
      case (Inl e)
      then show ?thesis using True by simp
    next
      case (Inr m)
      show ?thesis
      proof (cases "m n")
        case (Inl e)
        then show ?thesis using True Inr by simp
      next
        case inst: (Inr i)
        let ?e = "\<lparr>listenerName = n, listenerType = MESSAGE_LISTENER,
                        listenerInstance = PluginListener i, chatPlugin = p\<rparr>"
        from Cons.IH[of "registerChatListener ?e s"] obtain new where
          "chatListeners (outcome (registerListeners E path p names (registerChatListener ?e s)))
             = chatListeners (registerChatListener ?e s) @ new"
          "\<forall>l \<in> set new. chatPlugin l = p"
          "pluginHeap (outcome (registerListeners E path p names (registerChatListener ?e s)))
             = pluginHeap (registerChatListener ?e s)"
          "heap (outcome (registerListeners E path p names (registerChatListener ?e s)))
             = heap (registerChatListener ?e s)"
          by blast
        then show ?thesis using True Inr inst
          by (intro exI[of _ "?e # new"]) (simp add: registerChatListener_def)
      qed
    qed
  next
    case False
    show ?thesis
    proof (cases "suffix ''EventListener'' n")
      case ev: True
      show ?thesis
      proof (cases "require E path")
        case (Inl e)
        then show ?thesis using False ev by simp
      next
        case (Inr m)
        show ?thesis
        proof (cases "m n")
          case (Inl e)
          then show ?thesis using False ev Inr by simp
        next
          case inst: (Inr i)
          let ?e = "\<lparr>listenerName = n, listenerType = EVENT_LISTENER,
                        listenerInstance = PluginListener i, chatPlugin = p\<rparr>"
          show ?thesis using Cons.IH[of "registerEventListener ?e s"] False ev Inr inst
            by (simp add: registerEventListener_def)
        qed
      qed
    next
      case nev: False
      let ?m = "Msg (''The listener '' @ dq @ n @ dq @ '' is not supported!'')"
      show ?thesis using Cons.IH[of "logError ?m s"] False nev
        by (simp add: logError_def)
    qed
  qed
qed

lemma loadLoop_registered:
  assumes "sorted_wrt (loadsBefore ph) ps"
  shows "\<exists>new. chatListeners (outcome (loadLoop E C y ps s)) = chatListeners s @ new
     \<and> (\<forall>l \<in> set new. chatPlugin l \<in> set ps)
     \<and> sorted_wrt (\<lambda>a b. loadsBefore ph (chatPlugin a) (chatPlugin b)) new
     \<and> pluginHeap (outcome (loadLoop E C y ps s)) = pluginHeap s
     \<and> heap (outcome (loadLoop E C y ps s)) = heap s"
  using assms
proof (induction ps arbitrary: s)
  case Nil
  then show ?case by simp
next
  case (Cons p ps)
  let ?Q = "\<lambda>s0 s'. \<exists>new. chatListeners s' = chatListeners s0 @ new
     \<and> (\<forall>l \<in> set new. chatPlugin l \<in> set (p # ps))
     \<and> sorted_wrt (\<lambda>a b. loadsBefore ph (chatPlugin a) (chatPlugin b)) new
     \<and> pluginHeap s' = pluginHeap s0 \<and> heap s' = heap s0"
  have srt: "sorted_wrt (loadsBefore ph) ps" and first: "\<forall>q \<in> set ps. loadsBefore ph p q"
    using Cons.prems by simp_all
  have skip: "?Q s (outcome (loadLoop E C y ps (logError m s)))" for m
    using Cons.IH[OF srt, of "logError m s"] by (auto simp: logError_def)
  let ?path = "pluginPathOf C (pluginHeap s ! p)"
  show ?case
  proof (cases "existsSync E ?path")
    case False
    then show ?thesis using skip by (simp add: Let_def)
  next
    case ex: True
    show ?thesis
    proof (cases "getPackageName E (?path @ sep C @ ''package.json'')")
      case (Inl e)
      then show ?thesis using ex by (simp add: Let_def)
    next
      case (Inr pn)
      show ?thesis
      proof (cases "package (pluginHeap s ! p) = pn")
        case False
        then show ?thesis using ex Inr skip by (simp add: Let_def)
      next
        case same: True
        let ?r = "registerListeners E ?path p (listeners (pluginHeap s ! p)) s"
        from registerListeners_registered[of E ?path p "listeners (pluginHeap s ! p)" s]
        obtain new1 where n1: "chatListeners (outcome ?r) = chatListeners s @ new1"
          "\<forall>l \<in> set new1. chatPlugin l = p" "pluginHeap (outcome ?r) = pluginHeap s"
          "heap (outcome ?r) = heap s"
          by blast
        have s1: "sorted_wrt (\<lambda>a b. loadsBefore ph (chatPlugin a) (chatPlugin b)) new1"
          by (rule sorted_wrt_same[OF n1(2) loadsBefore_refl])
        show ?thesis
        proof (cases ?r)
          case (Inl es)
          then obtain e s' where es: "es = (e, s')" by (cases es)
          have "?Q s s'" using n1 s1 Inl es by auto
          then show ?thesis using ex Inr same Inl es by (simp add: Let_def)
        next
          case ok: (Inr s')
          let ?s2 = "s'\<lparr>plugins := plugins s' @ [p]\<rparr>"
          from Cons.IH[OF srt, of ?s2] obtain new2 where
            n2: "chatListeners (outcome (loadLoop E C y ps ?s2)) = chatListeners ?s2 @ new2"
            "\<forall>l \<in> set new2. chatPlugin l \<in> set ps"
            "sorted_wrt (\<lambda>a b. loadsBefore ph (chatPlugin a) (chatPlugin b)) new2"
            "pluginHeap (outcome (loadLoop E C y ps ?s2)) = pluginHeap ?s2"
            "heap (outcome (loadLoop E C y ps ?s2)) = heap ?s2"
            by blast
          have "?Q s (outcome (loadLoop E C y ps ?s2))"
            using n1 n2 s1 first ok
            by (intro exI[of _ "new1 @ new2"]) (auto simp: sorted_wrt_append)
          then show ?thesis using ex Inr same ok by (simp add: Let_def)
        qed
      qed
    qed
  qed
qed

lemma loadFrom_registered:
  "\<exists>new. chatListeners (outcome (loadFrom E C y s)) = chatListeners s @ new
     \<and> sorted_wrt (\<lambda>a b. loadsBefore (pluginHeap (outcome (loadFrom E C y s)))
           (chatPlugin a) (chatPlugin b)) new
     \<and> (\<forall>l \<in> set new. length (pluginHeap s) \<le> chatPlugin l
           \<and> chatPlugin l < length (pluginHeap (outcome (loadFrom E C y s))))
     \<and> heap (outcome (loadFrom E C y s)) = heap s
     \<and> pluginHeap (outcome (loadFrom E C y s))
         = pluginHeap s @ (case readYamlFile E y of Inl e \<Rightarrow> [] | Inr parsed \<Rightarrow> parsed)"
proof (cases "readYamlFile E y")
  case (Inl e)
  then show ?thesis by (simp add: loadFrom_def)
next
  case (Inr parsed)
  let ?s1 = "s\<lparr>pluginHeap := pluginHeap s @ parsed\<rparr>"
  let ?refs = "[length (pluginHeap s) ..< length (pluginHeap s) + length parsed]"
  let ?ps = "arraySort (comparePriority (pluginHeap ?s1)) ?refs"
  have lf: "loadFrom E C y s = loadLoop E C y ?ps ?s1"
    using Inr by (simp add: loadFrom_def allocPlugins_def)
  have "sorted_wrt (loadsBefore (pluginHeap ?s1)) ?ps"
    by (rule arraySort_loadsBefore) simp
  from loadLoop_registered[OF this, of E C y ?s1]
  show ?thesis unfolding lf using Inr by auto
qed

lemma loadPlugins_outcome:
  "loadPlugins E C s =
     (if \<not> existsSync E (homeManifest C) \<and> \<not> existsSync E (builtinManifest C)
      then (logError (Msg ''Skip loading plugins!'')
           (logError (Msg (''Zowe Chat plugin configuration file plugin.yaml does not exist in ''
              @ pluginHome C @ '' and '' @ dirname C @ sep C @ ''..'' @ sep C @ ''config !'')) s),
            Return ())
      else (case loadFrom E C (chosenManifest E C) s of
              Inl (e, s') \<Rightarrow> (logError (Exn e) s', Return ())
            | Inr s' \<Rightarrow> (s', Return ())))"
  by (simp add: loadPlugins_def chosenManifest_def)

lemma loadPlugins_registered:
  "\<exists>new. chatListeners (fst (loadPlugins E C s)) = chatListeners s @ new
     \<and> sorted_wrt (\<lambda>a b. loadsBefore (pluginHeap (fst (loadPlugins E C s)))
           (chatPlugin a) (chatPlugin b)) new
     \<and> (\<forall>l \<in> set new. length (pluginHeap s) \<le> chatPlugin l
           \<and> chatPlugin l < length (pluginHeap (fst (loadPlugins E C s))))
     \<and> heap (fst (loadPlugins E C s)) = heap s
     \<and> (\<exists>parsed. pluginHeap (fst (loadPlugins E C s)) = pluginHeap s @ parsed)"
proof (cases "\<not> existsSync E (homeManifest C) \<and> \<not> existsSync E (builtinManifest C)")
  case True
  then show ?thesis by (simp add: loadPlugins_outcome logError_def)
next
  case False
  let ?r = "loadFrom E C (chosenManifest E C) s"
  from loadFrom_registered[of E C "chosenManifest E C" s] obtain new where
    n: "chatListeners (outcome ?r) = chatListeners s @ new"
    "sorted_wrt (\<lambda>a b. loadsBefore (pluginHeap (outcome ?r)) (chatPlugin a) (chatPlugin b)) new"
    "\<forall>l \<in> set new. length (pluginHeap s) \<le> chatPlugin l
           \<and> chatPlugin l < length (pluginHeap (outcome ?r))"
    "heap (outcome ?r) = heap s"
    "\<exists>parsed. pluginHeap (outcome ?r) = pluginHeap s @ parsed"
    by blast
  have "fst (loadPlugins E C s) = outcome ?r \<or>
        (\<exists>e. fst (loadPlugins E C s) = logError (Exn e) (outcome ?r))"
    using False by (auto simp: loadPlugins_outcome split: sum.splits)
  then consider (a) "fst (loadPlugins E C s) = outcome ?r"
    | (b) e where "fst (loadPlugins E C s) = logError (Exn e) (outcome ?r)"
    by blast
  then show ?thesis
  proof cases
    case a
    show ?thesis unfolding a using n by (intro exI[of _ new]) simp
  next
    case b
    show ?thesis unfolding b using n by (intro exI[of _ new]) (simp add: logError_def)
  qed
qed

lemma snd_loadPlugins: "snd (loadPlugins E C s) = Return ()"
  by (simp add: loadPlugins_outcome split: sum.splits)

subsection \<open>What a pass leaves unchanged\<close>

lemma matchOutcome_simps [simp]:
  "matchOutcome (Inl (e, s)) = s" "matchOutcome (Inr (s, ls, cs)) = s"
  by (simp_all add: matchOutcome_def)

lemma sameRegistry_refl [simp]: "sameRegistry s s"
  by (simp add: sameRegistry_def)

lemma sameRegistry_trans: "sameRegistry s s' \<Longrightarrow> sameRegistry s' s'' \<Longrightarrow> sameRegistry s s''"
  by (simp add: sameRegistry_def)

lemma sameRegistry_afterMatchLoop [simp]: "sameRegistry s (afterMatchLoop s c ls)"
  by (simp add: sameRegistry_def)

lemma matchLoop_frame:
  "sameRegistry s (matchOutcome (matchLoop E c ls s aL aC))
   \<and> prefix (trace s) (trace (matchOutcome (matchLoop E c ls s aL aC)))
   \<and> prefix (heap s) (heap (matchOutcome (matchLoop E c ls s aL aC)))"
proof (induction ls arbitrary: s aL aC)
  case Nil
  then show ?case by simp
next
  case (Cons l ls)
  show ?case
  proof (cases "reportsMatch E s c l")
    case (Inl e)
    then show ?thesis by (simp add: matchLoop_step)
  next
    case (Inr b)
    let ?s1 = "afterMatchLoop s c [l]"
    let ?r = "matchLoop E c ls ?s1 (if b then aL @ [l] else aL)
          (if b then aC @ [length (heap s)] else aC)"
    have eq: "matchLoop E c (l # ls) s aL aC = ?r" by (simp add: matchLoop_step Inr)
    have ih: "sameRegistry ?s1 (matchOutcome ?r)" "prefix (trace ?s1) (trace (matchOutcome ?r))"
      "prefix (heap ?s1) (heap (matchOutcome ?r))"
      using Cons.IH[of ?s1] by blast+
    have "sameRegistry s (matchOutcome ?r)"
      by (rule sameRegistry_trans[OF sameRegistry_afterMatchLoop ih(1)])
    moreover have "prefix (trace s) (trace (matchOutcome ?r))"
      using ih(2) by (simp add: append_prefixD)
    moreover have "prefix (heap s) (heap (matchOutcome ?r))"
      using ih(3) by (simp add: append_prefixD)
    ultimately show ?thesis unfolding eq by blast
  qed
qed

lemma matchLoop_first:
  "\<exists>evs. trace (matchOutcome (matchLoop E c (l # ls) s aL aC))
     = trace s @ CallMatch l (length (heap s)) # evs"
proof (cases "reportsMatch E s c l")
  case (Inl e)
  then show ?thesis by (simp add: matchLoop_step)
next
  case (Inr b)
  let ?s1 = "afterMatchLoop s c [l]"
  let ?r = "matchLoop E c ls ?s1 (if b then aL @ [l] else aL)
          (if b then aC @ [length (heap s)] else aC)"
  have eq: "matchLoop E c (l # ls) s aL aC = ?r" by (simp add: matchLoop_step Inr)
  have "prefix (trace ?s1) (trace (matchOutcome ?r))"
    using matchLoop_frame[of ?s1 E c ls] by blast
  then obtain evs where "trace (matchOutcome ?r) = trace ?s1 @ evs" by (rule prefixE)
  then show ?thesis unfolding eq by simp
qed

lemma matchMessage_cases:
  "matchMessage E C s c =
     (if \<not> addressed C (heap s ! c) then (s, Some False)
      else if type' (payload (heap s ! c)) \<noteq> MESSAGE
      then (updateContext c (setPools [] [])
              (logError (Msg (''Wrong payload type: ''
                 @ showPayloadType E (type' (payload (heap s ! c))))) s), Some False)
      else (case matchLoop E c (chatListeners s) s [] [] of
              Inl (e, s') \<Rightarrow> (logError (Exn e) s', None)
            | Inr (s', ls, cs) \<Rightarrow> (updateContext c (setPools ls cs) s', Some (0 < length ls))))"
  by (simp add: matchMessage_def addressed_def)

lemma sameRegistry_trace [simp]: "sameRegistry s (s'\<lparr>trace := t\<rparr>) = sameRegistry s s'"
  by (simp add: sameRegistry_def)

lemma sameRegistry_heap [simp]: "sameRegistry s (s'\<lparr>heap := h\<rparr>) = sameRegistry s s'"
  by (simp add: sameRegistry_def)

lemma matchMessage_frame: "sameRegistry s (fst (matchMessage E C s c))"
proof -
  let ?r = "matchLoop E c (chatListeners s) s [] []"
  have "sameRegistry s (matchOutcome ?r)"
    using matchLoop_frame[of s E c "chatListeners s" "[]" "[]"] by blast
  then show ?thesis
    by (cases ?r) (auto simp: matchMessage_cases updateContext_def logError_def)
qed

lemma consulted_append_log [simp]: "consulted (es @ [LogError m]) = consulted es"
  by (induction es rule: consulted.induct) auto

lemma newEvents_append [simp]: "trace s' = trace s @ evs \<Longrightarrow> newEvents s s' = evs"
  by (simp add: newEvents_def)

lemma matchMessage_first_consulted:
  "take 1 (consulted (newEvents s (fst (matchMessage E C s c))))
   = (if addressed C (heap s ! c) \<and> type' (payload (heap s ! c)) = MESSAGE
      then take 1 (chatListeners s) else [])"
proof (cases "addressed C (heap s ! c) \<and> type' (payload (heap s ! c)) = MESSAGE")
  case False
  then show ?thesis
    by (auto simp: matchMessage_cases newEvents_def updateContext_def logError_def)
next
  case True
  show ?thesis
  proof (cases "chatListeners s")
    case Nil
    then show ?thesis using True
      by (simp add: matchMessage_cases newEvents_def updateContext_def)
  next
    case (Cons l ls)
    let ?r = "matchLoop E c (l # ls) s [] []"
    from matchLoop_first[of E c l ls s "[]" "[]"] obtain evs where
      t: "trace (matchOutcome ?r) = trace s @ CallMatch l (length (heap s)) # evs"
      by blast
    show ?thesis
    proof (cases ?r)
      case (Inl es)
      then obtain e s' where es: "es = (e, s')" by (cases es)
      have "trace (fst (matchMessage E C s c)) = trace s @ (CallMatch l (length (heap s)) # evs) @ [LogError (Exn e)]"
        using True Cons Inl es t by (simp add: matchMessage_cases logError_def)
      then have "newEvents s (fst (matchMessage E C s c)) = (CallMatch l (length (heap s)) # evs) @ [LogError (Exn e)]"
        by (rule newEvents_append)
      then show ?thesis using True Cons by simp
    next
      case (Inr res)
      then obtain s' xs cs where res: "res = (s', xs, cs)" by (cases res)
      have "trace (fst (matchMessage E C s c)) = trace s @ CallMatch l (length (heap s)) # evs"
        using True Cons Inr res t by (simp add: matchMessage_cases updateContext_def)
      then have "newEvents s (fst (matchMessage E C s c)) = CallMatch l (length (heap s)) # evs"
        by (rule newEvents_append)
      then show ?thesis using True Cons by simp
    qed
  qed
qed

lemma onlyTrace_refl [simp]: "onlyTrace s s"
  by (simp add: onlyTrace_def)

lemma onlyTrace_trans: "onlyTrace s s' \<Longrightarrow> onlyTrace s' s'' \<Longrightarrow> onlyTrace s s''"
  by (auto simp: onlyTrace_def sameRegistry_def)

lemma onlyTrace_emit [simp]: "onlyTrace s (emit e s)" "onlyTrace s (logError m s)"
  by (simp_all add: onlyTrace_def sameRegistry_def emit_def logError_def)

lemma onlyTrace_emit2 [simp]:
  "onlyTrace s (emit e' (emit e s))" "onlyTrace s (logError m (emit e' (emit e s)))"
  "onlyTrace s (logError m (emit e s))"
  by (simp_all add: onlyTrace_def sameRegistry_def emit_def logError_def)

lemma processLoop_frame: "onlyTrace s (outcome (processLoop E ls cs is s))"
proof (induction "is" arbitrary: s)
  case Nil
  then show ?case by simp
next
  case (Cons i rest)
  have ext: "onlyTrace s (outcome (processLoop E ls cs rest (emit e' (emit e s))))" for e e'
    by (rule onlyTrace_trans[OF onlyTrace_emit2(1) Cons.IH])
  show ?case
    using ext
    by (auto simp: processLoop.simps(2) Let_def split: option.splits sum.splits)
qed

lemma processMessage_frame: "onlyTrace s (fst (processMessage E C s c))"
proof (cases "isAuthenticated E (heap s ! c)")
  case False
  then show ?thesis
    by (auto simp: processMessage_def Let_def split: option.splits sum.splits)
next
  case True
  have pl: "onlyTrace s (outcome (processLoop E ls cs is s))" for ls cs "is"
    by (rule processLoop_frame)
  define R where "R =
     (case getPrincipal E (heap s ! c) of
        Inl e \<Rightarrow> Inl (e, s)
      | Inr _ \<Rightarrow>
          (case extraData (heap s ! c) of
             None \<Rightarrow> Inl (undefinedRead, s)
           | Some x \<Rightarrow>
               (case extra_listeners x of
                  None \<Rightarrow> Inl (undefinedRead, s)
                | Some ml \<Rightarrow>
                    processLoop E ml (extra_contexts x)
                      [0 ..< nat (effectiveLimit (pluginLimit C) (length ml))] s)))"
  have pm: "processMessage E C s c =
      (case R of Inl (e, s') \<Rightarrow> (logError (Exn e) s', Return ()) | Inr s' \<Rightarrow> (s', Return ()))"
    using True by (simp add: processMessage_def R_def Let_def)
  have oR: "onlyTrace s (outcome R)"
    unfolding R_def by (simp add: pl split: sum.split option.split)
  show ?thesis
  proof (cases R)
    case (Inl es)
    then obtain e s' where es: "es = (e, s')" by (cases es)
    have "onlyTrace s s'" using oR Inl es by simp
    then have "onlyTrace s (logError (Exn e) s')"
      by (rule onlyTrace_trans[OF _ onlyTrace_emit(2)])
    then show ?thesis by (simp add: pm Inl es)
  next
    case (Inr s')
    then show ?thesis using oR by (simp add: pm)
  qed
qed

subsection \<open>The matcher: C1 and C9\<close>

lemma not_isl_iff: "\<not> isl x \<longleftrightarrow> (\<exists>b. x = Inr b)"
  by (cases x) auto

lemma isl_iff: "isl x \<longleftrightarrow> (\<exists>e. x = Inl e)"
  by (cases x) auto

text \<open>
  C1, as stated, fails: \<open>matchMessage\<close> first checks that the text mentions the bot. The
  message \<open>hello\<close> does not; the method returns \<open>false\<close> and records nothing, although
  the listener at index 1 would accept the clone.
\<close>

theorem matchMessage_not_addressed_counterexample:
  "snd (matchMessage demoEnv demoConfig (atMessage ''alice'' ''hello'') 0) = Some False
   \<and> reportsMatch demoEnv (atMessage ''alice'' ''hello'') 0
        (chatListeners (atMessage ''alice'' ''hello'') ! 1) = Inr True
   \<and> chatListeners (atMessage ''alice'' ''hello'') ! 1
        \<in> set (chatListeners (atMessage ''alice'' ''hello''))
   \<and> extraData (heap (fst (matchMessage demoEnv demoConfig (atMessage ''alice'' ''hello'') 0)) ! 0)
        = None"
  by code_simp

text \<open>
  C1, amended: for a context whose text contains \<open>@botName\<close> and whose payload is a
  message, and when no listener's \<open>matchMessage\<close> throws, the method returns \<open>true\<close>
  exactly if some registered listener accepts its stamped clone; the inbound context
  then carries, as \<open>extraData.listeners\<close>, the accepting entries in registry order and, as
  \<open>extraData.contexts\<close>, the references to their clones in the same order.
\<close>

theorem matchMessage_addressed:
  assumes "c < length (heap s)" "addressed C (heap s ! c)"
    and "type' (payload (heap s ! c)) = MESSAGE"
    and "\<forall>l \<in> set (chatListeners s). \<not> isl (reportsMatch E s c l)"
  shows "snd (matchMessage E C s c)
         = Some (\<exists>l \<in> set (chatListeners s). reportsMatch E s c l = Inr True)
     \<and> (\<exists>x. extraData (heap (fst (matchMessage E C s c)) ! c) = Some x
           \<and> extra_listeners x = Some (matched E s c (chatListeners s))
           \<and> extra_contexts x = Some (matchedRefs E s c (chatListeners s)))
     \<and> map (\<lambda>a. heap (fst (matchMessage E C s c)) ! a) (matchedRefs E s c (chatListeners s))
         = map (stampedClone s c) (matched E s c (chatListeners s))"
proof -
  let ?L = "chatListeners s"
  let ?s' = "fst (matchMessage E C s c)"
  have ok: "\<forall>l \<in> set ?L. \<exists>b. reportsMatch E s c l = Inr b"
    using assms(4) by (simp add: not_isl_iff)
  note mm = matchMessage_ok[OF assms(1-3) ok]
  have h: "heap ?s' = (heap s @ map (stampedClone s c) ?L)
      [c := setPools (matched E s c ?L) (matchedRefs E s c ?L) (heap s ! c)]"
    using assms(1) by (simp add: mm updateContext_def nth_append)
  have r: "snd (matchMessage E C s c) = Some (\<exists>l \<in> set ?L. reportsMatch E s c l = Inr True)"
    by (auto simp: mm matched_def filter_empty_conv)
  have x: "\<exists>x. extraData (heap ?s' ! c) = Some x
           \<and> extra_listeners x = Some (matched E s c ?L)
           \<and> extra_contexts x = Some (matchedRefs E s c ?L)"
    using assms(1) by (simp add: h extraData_setPools)
  have "map (\<lambda>a. heap ?s' ! a) (matchedRefs E s c ?L)
      = map (\<lambda>a. (heap s @ map (stampedClone s c) ?L) ! a) (matchedRefs E s c ?L)"
    unfolding h using assms(1)
    by (intro map_cong refl nth_list_update_neq) (auto dest: matchedRefs_bounds)
  then have m: "map (\<lambda>a. heap ?s' ! a) (matchedRefs E s c ?L)
      = map (stampedClone s c) (matched E s c ?L)"
    by (simp add: matchedRefs_clones)
  show ?thesis using r x m by blast
qed

theorem matchMessage_addressed_witness:
  "0 < length (heap (atMessage ''alice'' ''@zowe hi''))
   \<and> addressed demoConfig (heap (atMessage ''alice'' ''@zowe hi'') ! 0)
   \<and> type' (payload (heap (atMessage ''alice'' ''@zowe hi'') ! 0)) = MESSAGE
   \<and> list_all (\<lambda>l. \<not> isl (reportsMatch demoEnv (atMessage ''alice'' ''@zowe hi'') 0 l))
        (chatListeners (atMessage ''alice'' ''@zowe hi''))
   \<and> snd (matchMessage demoEnv demoConfig (atMessage ''alice'' ''@zowe hi'') 0) = Some True
   \<and> map listenerName (matched demoEnv (atMessage ''alice'' ''@zowe hi'') 0
        (chatListeners (atMessage ''alice'' ''@zowe hi'')))
      = [''AlphaMessageListener'', ''AlphaTwoMessageListener'', ''BetaMessageListener'',
         ''GammaMessageListener'', ''DeltaMessageListener'']
   \<and> matchedRefs demoEnv (atMessage ''alice'' ''@zowe hi'') 0
        (chatListeners (atMessage ''alice'' ''@zowe hi'')) = [2, 3, 4, 5, 6]
   \<and> (\<exists>x. extraData (heap (fst (matchMessage demoEnv demoConfig
                (atMessage ''alice'' ''@zowe hi'') 0)) ! 0) = Some x
         \<and> extra_listeners x = Some (matched demoEnv (atMessage ''alice'' ''@zowe hi'') 0
              (chatListeners (atMessage ''alice'' ''@zowe hi'')))
         \<and> extra_contexts x = Some [2, 3, 4, 5, 6])"
proof -
  let ?s = "atMessage ''alice'' ''@zowe hi''"
  have h1: "0 < length (heap ?s)" by code_simp
  have h2: "addressed demoConfig (heap ?s ! 0)" by code_simp
  have h3: "type' (payload (heap ?s ! 0)) = MESSAGE" by code_simp
  have h4: "\<forall>l \<in> set (chatListeners ?s). \<not> isl (reportsMatch demoEnv ?s 0 l)" by code_simp
  have m: "map listenerName (matched demoEnv ?s 0 (chatListeners ?s))
      = [''AlphaMessageListener'', ''AlphaTwoMessageListener'', ''BetaMessageListener'',
         ''GammaMessageListener'', ''DeltaMessageListener'']" by code_simp
  have r: "matchedRefs demoEnv ?s 0 (chatListeners ?s) = [2, 3, 4, 5, 6]" by code_simp
  have ex: "\<exists>l \<in> set (chatListeners ?s). reportsMatch demoEnv ?s 0 l = Inr True" by code_simp
  have h4': "list_all (\<lambda>l. \<not> isl (reportsMatch demoEnv ?s 0 l)) (chatListeners ?s)"
    using h4 by (simp add: list_all_iff)
  show ?thesis using matchMessage_addressed[OF h1 h2 h3 h4] h1 h2 h3 h4' m r ex by simp
qed

lemma atMessage_simps [simp]:
  "heap (atMessage who text) = [inboundMessage who text]"
  "chatListeners (atMessage who text) = demoEntries"
  "pluginHeap (atMessage who text) = logoutPlugin # demoManifest"
  "trace (atMessage who text) = []"
  by (simp_all add: atMessage_def deliver_def bootState_def)

lemma addressed_hi: "addressed demoConfig (inboundMessage who ''@zowe hi'')"
  by (simp add: addressed_def inboundMessage_def demoConfig_def botName_def indexOf_def)

lemma consulted_CallMatch:
  "length ls = length ns \<Longrightarrow> consulted (map (\<lambda>(l, a). CallMatch l a) (zip ls ns)) = ls"
  by (induction ls ns rule: list_induct2) auto

lemma consulted_cloneRefs:
  "consulted (map (\<lambda>(l, a). CallMatch l a) (cloneRefs s ls)) = ls"
  by (simp add: cloneRefs_def consulted_CallMatch)

lemma first_raising_split:
  assumes "\<exists>l \<in> set (chatListeners s). raises E s c l"
  shows "chatListeners s = beforeRaising E s c @ firstRaising E s c
            # tl (dropWhile (\<lambda>l. \<not> raises E s c l) (chatListeners s))"
    and "\<forall>l \<in> set (beforeRaising E s c). \<exists>b. reportsMatch E s c l = Inr b"
    and "reportsMatch E s c (firstRaising E s c) = Inl (raised E s c)"
proof -
  let ?P = "\<lambda>l. \<not> raises E s c l"
  have ne: "dropWhile ?P (chatListeners s) \<noteq> []" using assms by (auto simp: dropWhile_eq_Nil_conv)
  then have d: "dropWhile ?P (chatListeners s)
      = firstRaising E s c # tl (dropWhile ?P (chatListeners s))"
    by (simp add: firstRaising_def)
  show "chatListeners s = beforeRaising E s c @ firstRaising E s c
            # tl (dropWhile ?P (chatListeners s))"
    using takeWhile_dropWhile_id[of ?P "chatListeners s"] d by (simp add: beforeRaising_def)
  show "\<forall>l \<in> set (beforeRaising E s c). \<exists>b. reportsMatch E s c l = Inr b"
    by (auto simp: beforeRaising_def raises_def not_isl_iff dest: set_takeWhileD)
  have "raises E s c (firstRaising E s c)"
    using hd_dropWhile[OF ne] by (simp add: firstRaising_def)
  then show "reportsMatch E s c (firstRaising E s c) = Inl (raised E s c)"
    by (auto simp: raises_def raised_def isl_iff)
qed

text \<open>
  C9: when a listener's \<open>matchMessage\<close> throws in a pass (the text is addressed to the bot
  and the payload is a message, so the registry is walked), \<open>matchMessage\<close> still
  returns (\<open>undefined\<close>). The listeners it consulted are those before the first one that
  throws and that one, each with a clone of its own; the only other thing the pass
  does is to log, last, the exception that this listener threw. The inbound context
  is as before: none of the matches found so far is recorded on it. The registry is
  untouched.
\<close>

theorem matchMessage_listener_raises:
  assumes "c < length (heap s)" "addressed C (heap s ! c)"
    and "type' (payload (heap s ! c)) = MESSAGE"
    and "\<exists>l \<in> set (chatListeners s). raises E s c l"
  shows "snd (matchMessage E C s c) = None
     \<and> heap (fst (matchMessage E C s c)) ! c = heap s ! c
     \<and> consulted (newEvents s (fst (matchMessage E C s c)))
         = beforeRaising E s c @ [firstRaising E s c]
     \<and> newEvents s (fst (matchMessage E C s c))
         = map (\<lambda>(l, a). CallMatch l a)
             (cloneRefs s (beforeRaising E s c @ [firstRaising E s c]))
           @ [LogError (Exn (raised E s c))]
     \<and> reportsMatch E s c (firstRaising E s c) = Inl (raised E s c)
     \<and> chatListeners (fst (matchMessage E C s c)) = chatListeners s"
proof -
  note sp = first_raising_split[OF assms(4)]
  have m: "matchMessage E C s c
      = (logError (Exn (raised E s c))
           (afterMatchLoop s c (beforeRaising E s c @ [firstRaising E s c])), None)"
    by (rule matchMessage_raise[OF assms(1-3) sp])
  have t: "trace (fst (matchMessage E C s c)) = trace s
      @ (map (\<lambda>(l, a). CallMatch l a) (cloneRefs s (beforeRaising E s c @ [firstRaising E s c]))
         @ [LogError (Exn (raised E s c))])"
    by (simp add: m logError_def)
  have n: "newEvents s (fst (matchMessage E C s c))
      = map (\<lambda>(l, a). CallMatch l a) (cloneRefs s (beforeRaising E s c @ [firstRaising E s c]))
         @ [LogError (Exn (raised E s c))]"
    by (rule newEvents_append[OF t])
  have c: "consulted (newEvents s (fst (matchMessage E C s c)))
         = beforeRaising E s c @ [firstRaising E s c]"
    unfolding n by (simp only: consulted_append_log consulted_cloneRefs)
  show ?thesis using assms(1) n c sp(3) by (simp add: m logError_def nth_append)
qed

theorem matchMessage_listener_raises_witness:
  "0 < length (heap (atMessage ''alice'' ''@zowe hi''))
   \<and> addressed demoConfig (heap (atMessage ''alice'' ''@zowe hi'') ! 0)
   \<and> type' (payload (heap (atMessage ''alice'' ''@zowe hi'') ! 0)) = MESSAGE
   \<and> list_ex (raises raisingEnv (atMessage ''alice'' ''@zowe hi'') 0)
        (chatListeners (atMessage ''alice'' ''@zowe hi''))
   \<and> snd (matchMessage raisingEnv demoConfig (atMessage ''alice'' ''@zowe hi'') 0) = None
   \<and> extraData (heap (fst (matchMessage raisingEnv demoConfig
          (atMessage ''alice'' ''@zowe hi'') 0)) ! 0) = None
   \<and> consulted (newEvents (atMessage ''alice'' ''@zowe hi'')
        (fst (matchMessage raisingEnv demoConfig (atMessage ''alice'' ''@zowe hi'') 0)))
       = take 4 demoEntries
   \<and> newEvents (atMessage ''alice'' ''@zowe hi'')
        (fst (matchMessage raisingEnv demoConfig (atMessage ''alice'' ''@zowe hi'') 0))
       = [CallMatch (demoEntries ! 0) 1, CallMatch (demoEntries ! 1) 2,
          CallMatch (demoEntries ! 2) 3, CallMatch (demoEntries ! 3) 4,
          LogError (Exn (Error ''boom''))]
   \<and> reportsMatch raisingEnv (atMessage ''alice'' ''@zowe hi'') 0 (demoEntries ! 3)
       = Inl (Error ''boom'')"
proof -
  let ?s = "atMessage ''alice'' ''@zowe hi''"
  have h1: "0 < length (heap ?s)" by simp
  have h2: "addressed demoConfig (heap ?s ! 0)" by (simp add: addressed_hi)
  have h3: "type' (payload (heap ?s ! 0)) = MESSAGE" by (simp add: inboundMessage_def)
  have r: "\<And>l. raises raisingEnv ?s 0 l \<longleftrightarrow> listenerInstance l = PluginListener 5"
    by (simp add: raises_def reportsMatch_def raisingEnv_def)
  have h4: "\<exists>l \<in> set (chatListeners ?s). raises raisingEnv ?s 0 l"
    by (simp add: r demoEntries_def logoutEntry_def)
  have h4': "list_ex (raises raisingEnv ?s 0) (chatListeners ?s)"
    using h4 by (simp add: list_ex_iff)
  have b: "beforeRaising raisingEnv ?s 0 = take 3 demoEntries"
    by (simp add: beforeRaising_def r demoEntries_def logoutEntry_def)
  have f: "firstRaising raisingEnv ?s 0 = demoEntries ! 3"
    by (simp add: firstRaising_def r demoEntries_def logoutEntry_def)
  have e: "raised raisingEnv ?s 0 = Error ''boom''"
    by (simp add: raised_def f) (simp add: reportsMatch_def raisingEnv_def demoEntries_def)
  have t: "take 3 demoEntries @ [demoEntries ! 3] = take 4 demoEntries"
    by (simp add: demoEntries_def)
  have cr: "cloneRefs ?s (take 4 demoEntries)
      = [(demoEntries ! 0, 1), (demoEntries ! 1, 2), (demoEntries ! 2, 3), (demoEntries ! 3, 4)]"
    by (simp add: cloneRefs_def demoEntries_def upt_rec)
  have x: "extraData (heap ?s ! 0) = None" by (simp add: inboundMessage_def)
  show ?thesis
    using matchMessage_listener_raises[OF h1 h2 h3 h4] h1 h2 h3 h4' x
    by (simp add: b f e t cr) (simp add: demoEntries_def)
qed

subsection \<open>The dispatcher: C2, C3 and C4\<close>

lemma newChatBot_demo: "newChatBot demoEnv demoConfig = (bootState, Return ())"
  by code_simp

lemma reportsMatch_demo:
  "reportsMatch demoEnv s c l = Inr (listenerInstance l \<noteq> LogoutMessageListener)"
  by (simp add: reportsMatch_def demoEnv_def split: listenerInstance.split)

lemma matched_demo: "matched demoEnv (atMessage who text) 0 demoEntries = tl demoEntries"
  by (simp add: matched_def reportsMatch_demo demoEntries_def logoutEntry_def)

lemma matchedRefs_demo: "matchedRefs demoEnv (atMessage who text) 0 demoEntries = [2, 3, 4, 5, 6]"
  by (simp add: matchedRefs_def cloneRefs_def reportsMatch_demo demoEntries_def logoutEntry_def
      upt_rec[of 1] upt_rec[of 2] upt_rec[of 3] upt_rec[of 4] upt_rec[of 5] upt_rec[of 6])

lemma afterMatch_hi:
  "afterMatch who ''@zowe hi'' =
     updateContext 0 (setPools (tl demoEntries) [2, 3, 4, 5, 6])
       (afterMatchLoop (atMessage who ''@zowe hi'') 0 demoEntries)"
proof -
  let ?s = "atMessage who ''@zowe hi''"
  have h1: "0 < length (heap ?s)" by simp
  have h2: "addressed demoConfig (heap ?s ! 0)" by (simp add: addressed_hi)
  have h3: "type' (payload (heap ?s ! 0)) = MESSAGE" by (simp add: inboundMessage_def)
  have h4: "\<forall>l \<in> set (chatListeners ?s). \<exists>b. reportsMatch demoEnv ?s 0 l = Inr b"
    by (simp add: reportsMatch_demo)
  show ?thesis
    using matchMessage_ok[OF h1 h2 h3 h4]
    by (simp add: afterMatch_def matched_demo matchedRefs_demo)
qed

lemma afterMatch_hi_simps [simp]:
  "heap (afterMatch who ''@zowe hi'') ! 0
     = setPools (tl demoEntries) [2, 3, 4, 5, 6] (inboundMessage who ''@zowe hi'')"
  "pluginHeap (afterMatch who ''@zowe hi'') = logoutPlugin # demoManifest"
  "chatListeners (afterMatch who ''@zowe hi'') = demoEntries"
  by (simp_all add: afterMatch_hi updateContext_def)

lemma extraData_afterMatch_hi:
  "extraData (heap (afterMatch who ''@zowe hi'') ! 0)
   = Some \<lparr>extra_chatPlugin = None, extra_listeners = Some (tl demoEntries),
       extra_contexts = Some [2, 3, 4, 5, 6], extra_other = []\<rparr>"
  by (simp add: setPools_def inboundMessage_def emptyExtraData_def)

lemma user_afterMatch_hi: "user (heap (afterMatch who ''@zowe hi'') ! 0) = \<lparr>name = who\<rparr>"
  by (simp add: setPools_def inboundMessage_def)

lemma filter_dispatched:
  "filter isCallProcess (concat (map (dispatched ls cs msgs) is))
   = map (\<lambda>i. CallProcess (ls ! i) (nthOpt cs i)) is"
  by (induction "is") (simp_all add: dispatched_def isCallProcess_def)

lemma map_nth_upt_take: "n \<le> length xs \<Longrightarrow> map ((!) xs) [0 ..< n] = take n xs"
  by (simp add: list_eq_iff_nth_eq)

text \<open>
  C2: for an authenticated sender whose principal resolves, with the pools recorded on the
  context, and when neither a listener nor \<open>send\<close> throws, the dispatcher calls
  \<open>processMessage\<close> (each followed by its \<open>send\<close>) on the matched listeners at the
  indices below the effective limit, in match order, and on no other. The effective limit
  is the match count for a negative \<open>pluginLimit\<close> and \<open>min pluginLimit matchCount\<close>
  otherwise; for a match count of 5 the limits -1, 2 and 10 give 5, 2 and 5.
\<close>

theorem processMessage_plugin_limit:
  assumes "isAuthenticated E (heap s ! c)" "getPrincipal E (heap s ! c) = Inr ()"
    and "extraData (heap s ! c) = Some x" "extra_listeners x = Some ls"
    and "extra_contexts x = Some cs"
    and "\<forall>i < nat (effectiveLimit (pluginLimit C) (length ls)).
           answers E s ls cs i = Inr (msgs i) \<and> delivers E s cs i (msgs i) = Inr ()"
  shows "processMessage E C s c =
           (s\<lparr>trace := trace s @ concat (map (dispatched ls cs msgs)
              [0 ..< nat (effectiveLimit (pluginLimit C) (length ls))])\<rparr>, Return ())
     \<and> filter isCallProcess (newEvents s (fst (processMessage E C s c)))
         = map (\<lambda>i. CallProcess (ls ! i) (nthOpt cs i))
             [0 ..< nat (effectiveLimit (pluginLimit C) (length ls))]
     \<and> map ((!) ls) [0 ..< nat (effectiveLimit (pluginLimit C) (length ls))]
         = take (nat (effectiveLimit (pluginLimit C) (length ls))) ls
     \<and> nat (effectiveLimit (pluginLimit C) (length ls))
         = (if pluginLimit C < 0 then length ls else min (nat (pluginLimit C)) (length ls))
     \<and> effectiveLimit (- 1) 5 = 5 \<and> effectiveLimit 2 5 = 2 \<and> effectiveLimit 10 5 = 5"
proof -
  let ?n = "nat (effectiveLimit (pluginLimit C) (length ls))"
  note pm = processMessage_ok[OF assms]
  have "newEvents s (fst (processMessage E C s c)) = concat (map (dispatched ls cs msgs) [0 ..< ?n])"
    by (rule newEvents_append) (simp add: pm)
  then have f: "filter isCallProcess (newEvents s (fst (processMessage E C s c)))
         = map (\<lambda>i. CallProcess (ls ! i) (nthOpt cs i)) [0 ..< ?n]"
    by (simp only: filter_dispatched)
  have t: "map ((!) ls) [0 ..< ?n] = take ?n ls"
    by (rule map_nth_upt_take[OF effectiveLimit_le])
  have e: "effectiveLimit (- 1) 5 = 5 \<and> effectiveLimit 2 5 = 2 \<and> effectiveLimit 10 5 = 5"
    by (simp add: effectiveLimit_def)
  show ?thesis
    using pm f t e effectiveLimit_min[of "pluginLimit C" "length ls"] by blast
qed

theorem processMessage_plugin_limit_witness:
  "isAuthenticated demoEnv (heap (afterMatch ''alice'' ''@zowe hi'') ! 0)
   \<and> getPrincipal demoEnv (heap (afterMatch ''alice'' ''@zowe hi'') ! 0) = Inr ()
   \<and> extraData (heap (afterMatch ''alice'' ''@zowe hi'') ! 0)
       = Some \<lparr>extra_chatPlugin = None, extra_listeners = Some (tl demoEntries),
           extra_contexts = Some [2, 3, 4, 5, 6], extra_other = []\<rparr>
   \<and> length (tl demoEntries) = 5 \<and> pluginLimit demoConfig = 2
   \<and> filter isCallProcess (newEvents (afterMatch ''alice'' ''@zowe hi'')
          (fst (processMessage demoEnv demoConfig (afterMatch ''alice'' ''@zowe hi'') 0)))
      = [CallProcess (demoEntries ! 1) (Some 2), CallProcess (demoEntries ! 2) (Some 3)]"
proof -
  let ?s = "afterMatch ''alice'' ''@zowe hi''"
  let ?x = "\<lparr>extra_chatPlugin = None, extra_listeners = Some (tl demoEntries),
           extra_contexts = Some [2, 3, 4, 5, 6], extra_other = []\<rparr>"
  have h1: "isAuthenticated demoEnv (heap ?s ! 0)"
    by (simp add: demoEnv_def setPools_def inboundMessage_def)
  have h2: "getPrincipal demoEnv (heap ?s ! 0) = Inr ()" by (simp add: demoEnv_def)
  have h3: "extraData (heap ?s ! 0) = Some ?x" by (rule extraData_afterMatch_hi)
  have h4: "extra_listeners ?x = Some (tl demoEntries)" by simp
  have h5: "extra_contexts ?x = Some [2, 3, 4, 5, 6]" by simp
  have len: "length (tl demoEntries) = 5" by (simp add: demoEntries_def)
  have pl: "pluginLimit demoConfig = 2" by (simp add: demoConfig_def)
  have n: "nat (effectiveLimit (pluginLimit demoConfig) (length (tl demoEntries))) = 2"
    by (simp add: pl effectiveLimit_def demoEntries_def)
  have h6: "\<forall>i < nat (effectiveLimit (pluginLimit demoConfig) (length (tl demoEntries))).
      answers demoEnv ?s (tl demoEntries) [2, 3, 4, 5, 6] i = Inr ((\<lambda>_. [demoReply]) i)
      \<and> delivers demoEnv ?s [2, 3, 4, 5, 6] i ((\<lambda>_. [demoReply]) i) = Inr ()"
    by (simp add: answers_def delivers_def demoEnv_def)
  from processMessage_plugin_limit[OF h1 h2 h3 h4 h5 h6]
  have "filter isCallProcess (newEvents ?s (fst (processMessage demoEnv demoConfig ?s 0)))
      = map (\<lambda>i. CallProcess (tl demoEntries ! i) (nthOpt [2, 3, 4, 5, 6] i)) [0 ..< 2]"
    unfolding n by blast
  also have "\<dots> = [CallProcess (demoEntries ! 1) (Some 2), CallProcess (demoEntries ! 2) (Some 3)]"
    by (simp add: numeral_2_eq_2 nthOpt_def demoEntries_def)
  finally show ?thesis using h1 h2 h3 len pl by simp
qed

text \<open>
  C3, as stated, fails in where the prompt is addressed: the code passes
  \<open>extraData.contexts[0]\<close>, the clone made for the first matched listener (here the
  object 2), to \<open>send\<close>, not the inbound context (the object 0).
\<close>

theorem login_prompt_target_counterexample:
  "newEvents (afterMatch ''bob'' ''@zowe hi'')
     (fst (processMessage demoEnv demoConfig (afterMatch ''bob'' ''@zowe hi'') 0))
   = [CallChallenge \<lparr>name = ''bob''\<rparr>,
      CallSend (Some 2) [loginPrompt \<lparr>name = ''bob''\<rparr> ''https://chat/login/bob'']]
   \<and> heap (afterMatch ''bob'' ''@zowe hi'') ! 2
       = setChatPlugin 2 (inboundMessage ''bob'' ''@zowe hi'')"
proof -
  let ?s = "afterMatch ''bob'' ''@zowe hi''"
  have h1: "\<not> isAuthenticated demoEnv (heap ?s ! 0)"
    by (simp add: demoEnv_def setPools_def inboundMessage_def)
  have g: "generateChallenge demoEnv \<lparr>name = ''bob''\<rparr> = ''https://chat/login/bob''"
    by (simp add: demoEnv_def)
  have c2: "heap ?s ! 2 = setChatPlugin 2 (inboundMessage ''bob'' ''@zowe hi'')"
    by (simp add: afterMatch_hi updateContext_def stampedClone_def demoEntries_def)
  show ?thesis
    using processMessage_unauthenticated[OF h1 extraData_afterMatch_hi, of 2 "[3, 4, 5, 6]" demoConfig]
    by (simp add: newEvents_def setPools_def inboundMessage_def g c2)
qed

text \<open>
  C3, amended: for an unauthenticated sender, with a non-empty \<open>extraData.contexts\<close> on the
  context (the dispatcher runs after a match), the dispatcher asks for a challenge and
  makes exactly one \<open>send\<close>: one plain-text message that contains the challenge URL,
  addressed to \<open>extraData.contexts[0]\<close>, the clone of the first matched listener. No
  listener's \<open>processMessage\<close> is called, and nothing but the trace changes.
\<close>

theorem processMessage_unauthenticated_prompt:
  assumes "\<not> isAuthenticated E (heap s ! c)"
    and "extraData (heap s ! c) = Some x" "extra_contexts x = Some (k # ks)"
  shows "newEvents s (fst (processMessage E C s c))
         = [CallChallenge (user (heap s ! c)),
            CallSend (Some k) [loginPrompt (user (heap s ! c))
              (generateChallenge E (user (heap s ! c)))]]
     \<and> messageType (loginPrompt (user (heap s ! c)) (generateChallenge E (user (heap s ! c))))
         = PLAIN_TEXT
     \<and> sublist (generateChallenge E (user (heap s ! c)))
         (message (loginPrompt (user (heap s ! c)) (generateChallenge E (user (heap s ! c)))))
     \<and> filter isCallProcess (newEvents s (fst (processMessage E C s c))) = []
     \<and> length (filter isCallSend (newEvents s (fst (processMessage E C s c)))) = 1
     \<and> onlyTrace s (fst (processMessage E C s c))"
proof -
  let ?u = "user (heap s ! c)"
  let ?m = "loginPrompt ?u (generateChallenge E ?u)"
  have ev: "newEvents s (fst (processMessage E C s c)) = [CallChallenge ?u, CallSend (Some k) [?m]]"
    by (rule newEvents_append) (simp add: processMessage_unauthenticated[OF assms])
  have msg: "message ?m = (''Hello @'' @ name ?u
        @ '', you are not currently logged in to the backend system. Please visit '')
        @ generateChallenge E ?u @ '' to login''"
    by (simp add: loginPrompt_def)
  have sub: "sublist (generateChallenge E ?u) (message ?m)"
    unfolding msg by (rule sublist_appendI)
  show ?thesis
    using ev sub processMessage_frame[of s E C c]
    by (simp add: isCallProcess_def isCallSend_def loginPrompt_def)
qed

theorem processMessage_unauthenticated_prompt_witness:
  "\<not> isAuthenticated demoEnv (heap (afterMatch ''bob'' ''@zowe hi'') ! 0)
   \<and> extraData (heap (afterMatch ''bob'' ''@zowe hi'') ! 0)
       = Some \<lparr>extra_chatPlugin = None, extra_listeners = Some (tl demoEntries),
           extra_contexts = Some (2 # [3, 4, 5, 6]), extra_other = []\<rparr>
   \<and> filter isCallProcess (newEvents (afterMatch ''bob'' ''@zowe hi'')
        (fst (processMessage demoEnv demoConfig (afterMatch ''bob'' ''@zowe hi'') 0))) = []
   \<and> length (filter isCallSend (newEvents (afterMatch ''bob'' ''@zowe hi'')
        (fst (processMessage demoEnv demoConfig (afterMatch ''bob'' ''@zowe hi'') 0)))) = 1"
proof -
  let ?s = "afterMatch ''bob'' ''@zowe hi''"
  let ?x = "\<lparr>extra_chatPlugin = None, extra_listeners = Some (tl demoEntries),
           extra_contexts = Some (2 # [3, 4, 5, 6]), extra_other = []\<rparr>"
  have h1: "\<not> isAuthenticated demoEnv (heap ?s ! 0)"
    by (simp add: demoEnv_def setPools_def inboundMessage_def)
  have h2: "extraData (heap ?s ! 0) = Some ?x" by (rule extraData_afterMatch_hi)
  have h3: "extra_contexts ?x = Some (2 # [3, 4, 5, 6])" by simp
  show ?thesis
    using processMessage_unauthenticated_prompt[OF h1 h2 h3, of demoConfig] h1 h2 by blast
qed

text \<open>
  C4: for an authenticated sender, when the listeners at the indices below \<open>k\<close> and their
  \<open>send\<close>s succeed and the listener at index \<open>k\<close> (below the effective limit) throws in
  \<open>processMessage\<close>, or its \<open>send\<close> throws, then \<open>processMessage\<close> has been called on the
  listeners at the indices 0 to \<open>k\<close> and on no other, the last thing the dispatcher does
  is log the exception, and the method returns normally, having changed only the trace.
\<close>

theorem processMessage_fail_stop:
  assumes "isAuthenticated E (heap s ! c)" "getPrincipal E (heap s ! c) = Inr ()"
    and "extraData (heap s ! c) = Some x" "extra_listeners x = Some ls"
    and "extra_contexts x = Some cs"
    and "k < nat (effectiveLimit (pluginLimit C) (length ls))"
    and "\<forall>i < k. answers E s ls cs i = Inr (msgs i) \<and> delivers E s cs i (msgs i) = Inr ()"
    and "answers E s ls cs k = Inl e
         \<or> (answers E s ls cs k = Inr (msgs k) \<and> delivers E s cs k (msgs k) = Inl e)"
  shows "snd (processMessage E C s c) = Return ()
     \<and> filter isCallProcess (newEvents s (fst (processMessage E C s c)))
         = map (\<lambda>i. CallProcess (ls ! i) (nthOpt cs i)) [0 ..< Suc k]
     \<and> last (trace (fst (processMessage E C s c))) = LogError (Exn e)
     \<and> onlyTrace s (fst (processMessage E C s c))"
proof -
  let ?tail = "(if answers E s ls cs k = Inl e then [CallProcess (ls ! k) (nthOpt cs k)]
             else dispatched ls cs msgs k)"
  let ?evs = "concat (map (dispatched ls cs msgs) [0 ..< k]) @ ?tail @ [LogError (Exn e)]"
  note pm = processMessage_fail[OF assms]
  have ev: "newEvents s (fst (processMessage E C s c)) = ?evs"
    by (rule newEvents_append) (simp add: pm)
  have "filter isCallProcess ?evs = map (\<lambda>i. CallProcess (ls ! i) (nthOpt cs i)) [0 ..< k]
      @ [CallProcess (ls ! k) (nthOpt cs k)]"
    by (simp add: filter_dispatched) (simp add: isCallProcess_def dispatched_def)
  then have f: "filter isCallProcess (newEvents s (fst (processMessage E C s c)))
         = map (\<lambda>i. CallProcess (ls ! i) (nthOpt cs i)) [0 ..< Suc k]"
    by (simp add: ev)
  have l: "last (trace (fst (processMessage E C s c))) = LogError (Exn e)"
    by (simp add: pm)
  show ?thesis using f l processMessage_frame[of s E C c] by (simp add: pm)
qed

theorem processMessage_fail_stop_witness:
  "isAuthenticated failingEnv (heap (afterMatch ''alice'' ''@zowe hi'') ! 0)
   \<and> (1::nat) < nat (effectiveLimit (pluginLimit (demoConfig\<lparr>pluginLimit := - 1\<rparr>))
        (length (tl demoEntries)))
   \<and> answers failingEnv (afterMatch ''alice'' ''@zowe hi'') (tl demoEntries) [2, 3, 4, 5, 6] 1
       = Inl (Error ''fail'')
   \<and> snd (processMessage failingEnv (demoConfig\<lparr>pluginLimit := - 1\<rparr>)
        (afterMatch ''alice'' ''@zowe hi'') 0) = Return ()
   \<and> filter isCallProcess (newEvents (afterMatch ''alice'' ''@zowe hi'')
        (fst (processMessage failingEnv (demoConfig\<lparr>pluginLimit := - 1\<rparr>)
          (afterMatch ''alice'' ''@zowe hi'') 0)))
      = [CallProcess (demoEntries ! 1) (Some 2), CallProcess (demoEntries ! 2) (Some 3)]
   \<and> last (trace (fst (processMessage failingEnv (demoConfig\<lparr>pluginLimit := - 1\<rparr>)
        (afterMatch ''alice'' ''@zowe hi'') 0))) = LogError (Exn (Error ''fail''))"
proof -
  let ?s = "afterMatch ''alice'' ''@zowe hi''"
  let ?C = "demoConfig\<lparr>pluginLimit := - 1\<rparr>"
  let ?x = "\<lparr>extra_chatPlugin = None, extra_listeners = Some (tl demoEntries),
           extra_contexts = Some [2, 3, 4, 5, 6], extra_other = []\<rparr>"
  have h1: "isAuthenticated failingEnv (heap ?s ! 0)"
    by (simp add: failingEnv_def demoEnv_def setPools_def inboundMessage_def)
  have h2: "getPrincipal failingEnv (heap ?s ! 0) = Inr ()"
    by (simp add: failingEnv_def demoEnv_def)
  have h3: "extraData (heap ?s ! 0) = Some ?x" by (rule extraData_afterMatch_hi)
  have h4: "extra_listeners ?x = Some (tl demoEntries)" by simp
  have h5: "extra_contexts ?x = Some [2, 3, 4, 5, 6]" by simp
  have h6: "(1::nat) < nat (effectiveLimit (pluginLimit ?C) (length (tl demoEntries)))"
    by (simp add: effectiveLimit_def demoEntries_def)
  have h7: "\<forall>i < (1::nat). answers failingEnv ?s (tl demoEntries) [2, 3, 4, 5, 6] i
        = Inr ((\<lambda>_. [demoReply]) i)
      \<and> delivers failingEnv ?s [2, 3, 4, 5, 6] i ((\<lambda>_. [demoReply]) i) = Inr ()"
    by (simp add: answers_def delivers_def failingEnv_def demoEnv_def demoEntries_def)
  have a: "answers failingEnv ?s (tl demoEntries) [2, 3, 4, 5, 6] 1 = Inl (Error ''fail'')"
    by (simp add: answers_def failingEnv_def demoEntries_def)
  have h8: "answers failingEnv ?s (tl demoEntries) [2, 3, 4, 5, 6] 1 = Inl (Error ''fail'')
      \<or> (answers failingEnv ?s (tl demoEntries) [2, 3, 4, 5, 6] 1 = Inr ((\<lambda>_. [demoReply]) 1)
          \<and> delivers failingEnv ?s [2, 3, 4, 5, 6] 1 ((\<lambda>_. [demoReply]) 1) = Inl (Error ''fail''))"
    using a by simp
  have m: "map (\<lambda>i. CallProcess (tl demoEntries ! i) (nthOpt [2, 3, 4, 5, 6] i)) [0 ..< Suc 1]
      = [CallProcess (demoEntries ! 1) (Some 2), CallProcess (demoEntries ! 2) (Some 3)]"
    by (simp add: nthOpt_def demoEntries_def)
  show ?thesis
    using processMessage_fail_stop[OF h1 h2 h3 h4 h5 h6 h7 h8] h1 h6 a unfolding m by blast
qed

subsection \<open>The loader and the registry: C5, C7, C8 and C10\<close>




text \<open>
  C7, as stated, fails: with neither manifest file present \<open>loadPlugins\<close> returns normally.
  It logs two errors and registers nothing; no error reaches the constructor.
\<close>

theorem loadPlugins_no_manifest_counterexample:
  "\<not> existsSync noManifestEnv (homeManifest demoConfig)
   \<and> \<not> existsSync noManifestEnv (builtinManifest demoConfig)
   \<and> loadPlugins noManifestEnv demoConfig initialState
       = (initialState\<lparr>trace :=
            [LogError (Msg ''Zowe Chat plugin configuration file plugin.yaml does not exist in /plugins and /app/bot/../config !''),
             LogError (Msg ''Skip loading plugins!'')]\<rparr>,
          Return ())"
  by (simp add: noManifestEnv_def loadPlugins_def logError_def initialState_def demoConfig_def)

text \<open>
  C7, amended: if neither the manifest in the plugin home nor the built-in one exists, the
  load pass logs two error-level messages, the second being \<open>Skip loading plugins!\<close>,
  changes nothing else and returns normally; the constructor then ends normally with
  the built-in listener as the only registered one.
\<close>

theorem loadPlugins_without_manifest:
  assumes "\<not> existsSync E (homeManifest C)" "\<not> existsSync E (builtinManifest C)"
  shows "loadPlugins E C s
         = (s\<lparr>trace := trace s @
              [LogError (Msg (''Zowe Chat plugin configuration file plugin.yaml does not exist in ''
                 @ pluginHome C @ '' and '' @ dirname C @ sep C @ ''..'' @ sep C @ ''config !'')),
               LogError (Msg ''Skip loading plugins!'')]\<rparr>,
            Return ())
     \<and> snd (newChatBot E C) = Return ()
     \<and> chatListeners (fst (newChatBot E C)) = [logoutEntry 0]"
  using assms
  by (simp add: loadPlugins_def newChatBot_def logError_def setBotListeners_def
      registerChatListener_def initialState_def)

theorem loadPlugins_without_manifest_witness:
  "\<not> existsSync noManifestEnv (homeManifest demoConfig)
   \<and> \<not> existsSync noManifestEnv (builtinManifest demoConfig)
   \<and> snd (loadPlugins noManifestEnv demoConfig bootState) = Return ()
   \<and> chatListeners (fst (loadPlugins noManifestEnv demoConfig bootState)) = demoEntries
   \<and> snd (newChatBot noManifestEnv demoConfig) = Return ()
   \<and> chatListeners (fst (newChatBot noManifestEnv demoConfig)) = [logoutEntry 0]"
proof -
  have h1: "\<not> existsSync noManifestEnv (homeManifest demoConfig)"
    by (simp add: noManifestEnv_def)
  have h2: "\<not> existsSync noManifestEnv (builtinManifest demoConfig)"
    by (simp add: noManifestEnv_def)
  show ?thesis
    using loadPlugins_without_manifest[OF h1 h2, of bootState] h1 h2
    by (simp add: bootState_def)
qed

text \<open>
  C8, as stated, fails: the code has no phase flag. After a match pass over the message
  \<open>@zowe hi\<close>, a further \<open>registerChatListener\<close> extends the registry of six entries to
  seven.
\<close>

theorem register_after_match_counterexample:
  "chatListeners (registerChatListener (logoutEntry 0)
      (fst (matchMessage demoEnv demoConfig (atMessage ''alice'' ''@zowe hi'') 0)))
   = demoEntries @ [logoutEntry 0]
   \<and> snd (matchMessage demoEnv demoConfig (atMessage ''alice'' ''@zowe hi'') 0) = Some True"
proof -
  let ?s = "atMessage ''alice'' ''@zowe hi''"
  have h1: "0 < length (heap ?s)" by simp
  have h2: "addressed demoConfig (heap ?s ! 0)" by (simp add: addressed_hi)
  have h3: "type' (payload (heap ?s ! 0)) = MESSAGE" by (simp add: inboundMessage_def)
  have h4: "\<forall>l \<in> set (chatListeners ?s). \<exists>b. reportsMatch demoEnv ?s 0 l = Inr b"
    by (simp add: reportsMatch_demo)
  have "snd (matchMessage demoEnv demoConfig ?s 0) = Some True"
    by (simp add: matchMessage_ok[OF h1 h2 h3 h4] matched_demo) (simp add: demoEntries_def)
  moreover have "chatListeners (registerChatListener (logoutEntry 0) (afterMatch ''alice'' ''@zowe hi''))
      = demoEntries @ [logoutEntry 0]"
    by (simp add: registerChatListener_def)
  ultimately show ?thesis by (simp add: afterMatch_def)
qed

text \<open>
  C8, amended: \<open>registerChatListener\<close> appends its entry to the registry in every state;
  called after a \<open>matchMessage\<close>, which leaves the registry as it was, it extends the
  registry by that entry.
\<close>

theorem registerChatListener_after_matchMessage:
  "chatListeners (registerChatListener l (fst (matchMessage E C s c))) = chatListeners s @ [l]
   \<and> chatListeners (registerChatListener l s) = chatListeners s @ [l]"
  using matchMessage_frame[of s E C c]
  by (simp add: registerChatListener_def sameRegistry_def)

theorem registerChatListener_after_matchMessage_witness:
  "chatListeners (registerChatListener (logoutEntry 0)
      (fst (matchMessage demoEnv demoConfig (atMessage ''bob'' ''hello'') 0)))
   = demoEntries @ [logoutEntry 0]"
  using registerChatListener_after_matchMessage
    [of "logoutEntry 0" demoEnv demoConfig "atMessage ''bob'' ''hello''" 0]
  by simp

lemma run_logout_head:
  "(\<exists>ls. chatListeners s = logoutEntry 0 # ls) \<and> (\<exists>ps. pluginHeap s = logoutPlugin # ps) \<Longrightarrow>
   (\<exists>ls. chatListeners (run C s calls) = logoutEntry 0 # ls)
   \<and> (\<exists>ps. pluginHeap (run C s calls) = logoutPlugin # ps)"
proof (induction calls arbitrary: s)
  case Nil
  then show ?case by simp
next
  case (Cons x calls)
  show ?case
  proof (cases x)
    case (Inbound ctx)
    show ?thesis unfolding Inbound run.simps
      by (rule Cons.IH) (use Cons.prems in \<open>simp add: deliver_def\<close>)
  next
    case (MatchMessage E c)
    show ?thesis unfolding MatchMessage run.simps
      by (rule Cons.IH)
        (use Cons.prems matchMessage_frame[of s E C c] in \<open>simp add: sameRegistry_def\<close>)
  next
    case (ProcessMessage E c)
    show ?thesis unfolding ProcessMessage run.simps
      by (rule Cons.IH)
        (use Cons.prems processMessage_frame[of s E C c] in
          \<open>simp add: onlyTrace_def sameRegistry_def\<close>)
  next
    case (RegisterChatListener l)
    show ?thesis unfolding RegisterChatListener run.simps
      by (rule Cons.IH) (use Cons.prems in \<open>auto simp: registerChatListener_def\<close>)
  qed
qed

lemma serving_logout_head:
  "(\<exists>ls. chatListeners (serving E C calls) = logoutEntry 0 # ls)
   \<and> (\<exists>ps. pluginHeap (serving E C calls) = logoutPlugin # ps)"
proof -
  let ?s0 = "(setBotListeners initialState)\<lparr>plugins := []\<rparr>"
  have c0: "chatListeners ?s0 = [logoutEntry 0]" and p0: "pluginHeap ?s0 = [logoutPlugin]"
    by (simp_all add: setBotListeners_def registerChatListener_def initialState_def)
  from loadPlugins_registered[of E C ?s0] obtain new parsed where
    "chatListeners (fst (loadPlugins E C ?s0)) = chatListeners ?s0 @ new"
    "pluginHeap (fst (loadPlugins E C ?s0)) = pluginHeap ?s0 @ parsed"
    by blast
  then have "(\<exists>ls. chatListeners (fst (newChatBot E C)) = logoutEntry 0 # ls)
      \<and> (\<exists>ps. pluginHeap (fst (newChatBot E C)) = logoutPlugin # ps)"
    unfolding c0 p0 by (simp add: newChatBot_def)
  then show ?thesis unfolding serving_def by (rule run_logout_head)
qed

text \<open>
  C10: in every state reached from the constructor by inbound contexts, match passes,
  dispatch passes and registrations, the registry's first entry is the built-in
  \<open>LogoutListener\<close>, whose plugin descriptor has package \<open>chat\<close> and priority 1; a match
  pass over a message addressed to the bot consults it before any other listener, and a
  pass over anything else consults no listener.
\<close>

theorem logout_listener_first:
  "chatListeners (serving E C calls) \<noteq> []
   \<and> chatListeners (serving E C calls) ! 0 = logoutEntry 0
   \<and> listenerName (chatListeners (serving E C calls) ! 0) = ''LogoutListener''
   \<and> package (pluginHeap (serving E C calls) ! chatPlugin (chatListeners (serving E C calls) ! 0))
       = ''chat''
   \<and> priority (pluginHeap (serving E C calls) ! chatPlugin (chatListeners (serving E C calls) ! 0))
       = 1
   \<and> take 1 (consulted (newEvents (serving E C calls)
         (fst (matchMessage E' C (serving E C calls) c))))
       = (if addressed C (heap (serving E C calls) ! c)
            \<and> type' (payload (heap (serving E C calls) ! c)) = MESSAGE
          then [logoutEntry 0] else [])"
proof -
  from serving_logout_head[of E C calls] obtain ls ps where
    l: "chatListeners (serving E C calls) = logoutEntry 0 # ls"
    and p: "pluginHeap (serving E C calls) = logoutPlugin # ps"
    by blast
  show ?thesis
    using matchMessage_first_consulted[of "serving E C calls" E' C c]
    by (simp add: l p logoutEntry_def logoutPlugin_def)
qed

theorem logout_listener_first_witness:
  "serving demoEnv demoConfig [Inbound (inboundMessage ''alice'' ''@zowe hi'')]
     = atMessage ''alice'' ''@zowe hi''
   \<and> chatListeners (atMessage ''alice'' ''@zowe hi'') ! 0 = logoutEntry 0
   \<and> addressed demoConfig (heap (atMessage ''alice'' ''@zowe hi'') ! 0)
   \<and> take 1 (consulted (newEvents (atMessage ''alice'' ''@zowe hi'')
        (fst (matchMessage demoEnv demoConfig (atMessage ''alice'' ''@zowe hi'') 0))))
      = [logoutEntry 0]"
proof -
  have h: "serving demoEnv demoConfig [Inbound (inboundMessage ''alice'' ''@zowe hi'')]
      = atMessage ''alice'' ''@zowe hi''"
    by (simp add: serving_def newChatBot_demo atMessage_def)
  have a: "addressed demoConfig (heap (atMessage ''alice'' ''@zowe hi'') ! 0)"
    by (simp add: addressed_hi)
  have m: "type' (payload (heap (atMessage ''alice'' ''@zowe hi'') ! 0)) = MESSAGE"
    by (simp add: inboundMessage_def)
  show ?thesis
    using logout_listener_first
      [of demoEnv demoConfig "[Inbound (inboundMessage ''alice'' ''@zowe hi'')]" demoEnv 0]
      a m
    unfolding h by simp
qed

subsection \<open>The clones in a store of objects: C6\<close>



lemma okVal_simps [simp]:
  "okVal h0 len VUndefined" "okVal h0 len VNull" "okVal h0 len (VBool b)"
  "okVal h0 len (VNum i)" "okVal h0 len (VStr s)"
  "okVal h0 len (VRef r) = okRef h0 len r"
  by (simp_all add: okVal_def)

lemma cloneInv_old: "cloneInv h0 h stack \<Longrightarrow> a < length h0 \<Longrightarrow> h ! a = h0 ! a"
  by (metis cloneInv_def nth_take)



lemma unstacked_finite [simp]: "finite (unstacked h0 stack)"
  by (simp add: unstacked_def)






subsubsection \<open>Reading and writing properties\<close>

lemma length_setProp [simp]: "length (setProp a k v h) = length h"
  by (simp add: setProp_def)

lemma length_push [simp]: "length (push a v h) = length h"
  by (simp add: push_def)



lemma kindOf_setProp [simp]: "kindOf (setProp a k v h ! b) = kindOf (h ! b)"
  by (cases "a < length h"; cases "b = a") (simp_all add: setProp_def list_update_beyond)

lemma kindOf_push [simp]: "kindOf (push a v h ! b) = kindOf (h ! b)"
  by (cases "a < length h"; cases "b = a") (simp_all add: push_def list_update_beyond)






lemma getProp_cong: "h' ! a = h ! a \<Longrightarrow> getProp h' a k = getProp h a k"
  by (simp add: getProp_def)



subsubsection \<open>Well-formed stores\<close>



lemma cloneInv_newD:
  "cloneInv h0 h stack \<Longrightarrow> length h0 \<le> b \<Longrightarrow> b < length h \<Longrightarrow> (k, v) \<in> set (slots (h ! b))
     \<Longrightarrow> okVal h0 (length h) v"
  by (auto simp: cloneInv_def)

lemma cloneInv_kind:
  "cloneInv h0 h stack \<Longrightarrow> length h0 \<le> b \<Longrightarrow> b < length h \<Longrightarrow> kindOf (h ! b) \<noteq> SharedK"
  by (auto simp: cloneInv_def)



lemma oldVal_length: "length h' = length h \<Longrightarrow> oldVal h' v = oldVal h v"
  by (cases v) (simp_all add: oldVal_def)

lemma oldVal_simps [simp]:
  "oldVal h VUndefined" "oldVal h VNull" "oldVal h (VBool b)"
  "oldVal h (VNum i)" "oldVal h (VStr s)"
  "oldVal h (VRef r) \<longleftrightarrow> r < length h"
  by (simp_all add: oldVal_def)







subsubsection \<open>What a step leaves as it was\<close>

lemma preserved_refl: "preserved h h"
  by (simp add: preserved_def)

lemma preserved_trans: "preserved h h' \<Longrightarrow> preserved h' h'' \<Longrightarrow> preserved h h''"
  by (auto simp: preserved_def)








lemma closedInI:
  assumes "\<And>b. lo \<le> b \<Longrightarrow> b < hi \<Longrightarrow> kindOf (h ! b) \<noteq> SharedK"
    and "\<And>b k r. lo \<le> b \<Longrightarrow> b < hi \<Longrightarrow> (k, VRef r) \<in> set (slots (h ! b))
      \<Longrightarrow> lo \<le> r \<and> r < hi \<or> r < lo \<and> kindOf (h ! r) = SharedK \<or> stampedIn h lo hi r"
  shows "closedIn h lo hi"
  unfolding closedIn_def using assms by blast



subsubsection \<open>The objects made for one listener\<close>

lemma okRef_cases:
  assumes "cloneInv h h1 stack" "length h \<le> b" "b < length h1" "(k, VRef r) \<in> set (slots (h1 ! b))"
  shows "length h \<le> r \<and> r < length h1 \<or> r < length h \<and> kindOf (h1 ! r) = SharedK"
proof -
  have "okVal h (length h1) (VRef r)" by (rule cloneInv_newD[OF assms])
  then have "length h \<le> r \<and> r < length h1 \<or> r < length h \<and> kindOf (h ! r) = SharedK"
    by (simp add: okRef_def)
  then show ?thesis using cloneInv_old[OF assms(1), of r] by auto
qed

lemma closedIn_cloneInv:
  assumes "cloneInv h h1 []"
  shows "closedIn h1 (length h) (length h1)"
proof (rule closedInI)
  fix b assume b: "length h \<le> b" "b < length h1"
  show "kindOf (h1 ! b) \<noteq> SharedK" by (rule cloneInv_kind[OF assms b])
  fix k r assume "(k, VRef r) \<in> set (slots (h1 ! b))"
  from okRef_cases[OF assms b this]
  show "length h \<le> r \<and> r < length h1 \<or> r < length h \<and> kindOf (h1 ! r) = SharedK
        \<or> stampedIn h1 (length h) (length h1) r" by blast
qed




subsubsection \<open>The loop and the recorded contexts\<close>





subsubsection \<open>What a clone reaches\<close>













subsubsection \<open>The pass over the store of the example\<close>















end
